theory Spec2Isabelle
  imports Main "HOL-Library.AList" "HOL-Library.Sublist"
begin

section \<open>JavaScript values, truthiness and exceptions\<close>

text \<open>
  A property that may be missing from an object is an \<open>option\<close>: \<open>None\<close> is
  \<^verbatim>\<open>undefined\<close>. A thrown exception is the \<open>Inl\<close> of a sum; \<open>message\<close> reads
  \<^verbatim>\<open>error.message\<close>. The text of a \<^verbatim>\<open>TypeError\<close> is the one V8 prints.
\<close>

datatype error = Error string | TypeError string | SyntaxError string

fun message :: "error \<Rightarrow> string" where
  "message (Error m) = m"
| "message (TypeError m) = m"
| "message (SyntaxError m) = m"

datatype jsval = JNull | JBool bool | JNum int | JStr string

text \<open>\<^verbatim>\<open>if (s)\<close> on a string-valued property: \<^verbatim>\<open>undefined\<close> and \<^verbatim>\<open>''\<close> are falsy.\<close>

definition truthy :: "string option \<Rightarrow> bool" where
  "truthy s = (case s of None \<Rightarrow> False | Some v \<Rightarrow> v \<noteq> [])"

text \<open>\<^verbatim>\<open>s || d\<close> with a string default \<open>d\<close>.\<close>

definition js_or :: "string option \<Rightarrow> string \<Rightarrow> string" where
  "js_or s d = (case s of None \<Rightarrow> d | Some v \<Rightarrow> if v = [] then d else v)"

text \<open>\<^verbatim>\<open>toLowerCase\<close> on the ASCII letters; \<^verbatim>\<open>s.includes(t)\<close>.\<close>

definition lower_char :: "char \<Rightarrow> char" where
  "lower_char c = (let n = (of_char c :: nat) in if 65 \<le> n \<and> n \<le> 90 then char_of (n + 32) else c)"

definition toLowerCase :: "string \<Rightarrow> string" where
  "toLowerCase s = map lower_char s"

definition str_includes :: "string \<Rightarrow> string \<Rightarrow> bool" where
  "str_includes s t = sublist t s"

text \<open>A property inside a template literal: \<^verbatim>\<open>undefined\<close> prints as the word.\<close>

definition str :: "string option \<Rightarrow> string" where
  "str s = (case s of None \<Rightarrow> ''undefined'' | Some v \<Rightarrow> v)"

text \<open>\<^verbatim>\<open>n.toString()\<close> of a natural number, and \<^verbatim>\<open>s.slice(-6)\<close>.\<close>

fun decimal :: "nat \<Rightarrow> string" where
  "decimal n = (if n < 10 then [char_of (48 + n)] else decimal (n div 10) @ [char_of (48 + n mod 10)])"

definition last6 :: "string \<Rightarrow> string" where
  "last6 s = drop (length s - 6) s"

text \<open>\<^verbatim>\<open>Array.prototype.map\<close> with a callback that may throw.\<close>

fun map_throw :: "('a \<Rightarrow> error + 'b) \<Rightarrow> 'a list \<Rightarrow> error + 'b list" where
  "map_throw f [] = Inr []"
| "map_throw f (x # xs) =
     (case f x of
        Inl e \<Rightarrow> Inl e
      | Inr y \<Rightarrow> (case map_throw f xs of Inl e \<Rightarrow> Inl e | Inr ys \<Rightarrow> Inr (y # ys)))"

type_synonym instant = int

section \<open>Product Store (class ProductDatabase)\<close>

text \<open>
  A product is a JavaScript object; the fields the store reads or writes are named, the
  remaining ones live in the record's extension. \<^verbatim>\<open>id\<close>, \<^verbatim>\<open>name\<close> and \<^verbatim>\<open>type\<close> are
  written \<open>p_id\<close>, \<open>p_name\<close> and \<open>p_type\<close>. Timestamps are the clock readings that
  \<^verbatim>\<open>new Date().toISOString()\<close> renders.
\<close>

record product =
  p_id :: "string option"
  p_name :: "string option"
  p_type :: "string option"
  description :: "string option"
  status :: "string option"
  createdAt :: "instant option"
  updatedAt :: "instant option"
  deletedAt :: "instant option"

text \<open>
  \<^verbatim>\<open>this.products\<close> is a \<^verbatim>\<open>Map\<close>, which iterates in insertion order: an association
  list with \<open>AList.update\<close> (replace in place, else append) and \<open>AList.delete\<close>.
  \<open>disk\<close> is the array last written to \<^verbatim>\<open>dbPath\<close>; \<open>console\<close> collects the lines
  of \<^verbatim>\<open>console.error\<close>, without their leading emoji (the informational
  \<^verbatim>\<open>console.log\<close> lines are left out).
\<close>

record product_db =
  products :: "(string \<times> product) list"
  disk :: "product list"
  console :: "string list"

definition has :: "(string \<times> product) list \<Rightarrow> string \<Rightarrow> bool" where
  "has m k = (map_of m k \<noteq> None)"

definition console_error :: "string \<Rightarrow> product_db \<Rightarrow> product_db" where
  "console_error line db = db\<lparr>console := console db @ [line]\<rparr>"

text \<open>
  \<open>wr\<close> is what \<^verbatim>\<open>fs.writeFileSync\<close> does: \<open>None\<close> when it succeeds, \<open>Some m\<close> when it
  throws an error with message \<open>m\<close>.
\<close>

type_synonym fs_write = "string option"

definition saveDatabase :: "fs_write \<Rightarrow> product_db \<Rightarrow> (error + unit) \<times> product_db" where
  "saveDatabase wr db =
     (case wr of
        None \<Rightarrow> (Inr (), db\<lparr>disk := map snd (products db)\<rparr>)
      | Some m \<Rightarrow> (Inl (Error ''Failed to save product database''),
                  console_error (''Error saving database: '' @ m) db))"

text \<open>The body of the \<^verbatim>\<open>try\<close> block of \<^verbatim>\<open>addProduct\<close>; \<open>t1\<close> and \<open>t2\<close> are its two clock readings.\<close>

definition addProduct_try ::
  "instant \<Rightarrow> instant \<Rightarrow> fs_write \<Rightarrow> product \<Rightarrow> product_db \<Rightarrow> (error + unit) \<times> product_db" where
  "addProduct_try t1 t2 wr product db =
     (if \<not> truthy (p_id product) \<or> \<not> truthy (p_name product) \<or> \<not> truthy (p_type product)
      then (Inl (Error ''Product must have id, name, and type''), db)
      else let k = the (p_id product) in
        if has (products db) k
        then (Inl (Error (''Product with ID '' @ k @ '' already exists'')), db)
        else let product' = product\<lparr>createdAt := Some t1, updatedAt := Some t2,
                                      status := Some (js_or (status product) ''active'')\<rparr>
             in saveDatabase wr (db\<lparr>products := AList.update k product' (products db)\<rparr>))"

text \<open>
  \<^verbatim>\<open>addProduct\<close>: the \<^verbatim>\<open>catch\<close> logs the message and returns \<^verbatim>\<open>false\<close>. The
  result is a sum so that a raised exception would be visible as an \<open>Inl\<close>.
\<close>

definition addProduct ::
  "instant \<Rightarrow> instant \<Rightarrow> fs_write \<Rightarrow> product \<Rightarrow> product_db \<Rightarrow> (error + bool) \<times> product_db" where
  "addProduct t1 t2 wr product db =
     (case addProduct_try t1 t2 wr product db of
        (Inr _, db') \<Rightarrow> (Inr True, db')
      | (Inl e, db') \<Rightarrow> (Inr False, console_error (''Error adding product: '' @ message e) db'))"

definition getProduct :: "string \<Rightarrow> product_db \<Rightarrow> product option" where
  "getProduct k db = map_of (products db) k"

record filters =
  f_type :: "string option"
  f_status :: "string option"
  f_active :: "jsval option"
  f_search :: "string option"

text \<open>\<^verbatim>\<open>Array.prototype.filter\<close> with a callback that may throw.\<close>

fun filter_throw :: "('a \<Rightarrow> error + bool) \<Rightarrow> 'a list \<Rightarrow> error + 'a list" where
  "filter_throw P [] = Inr []"
| "filter_throw P (x # xs) =
     (case P x of
        Inl e \<Rightarrow> Inl e
      | Inr b \<Rightarrow> (case filter_throw P xs of
                    Inl e \<Rightarrow> Inl e
                  | Inr ys \<Rightarrow> Inr (if b then x # ys else ys)))"

text \<open>The callback of the search filter: \<^verbatim>\<open>toLowerCase\<close> of a missing property throws.\<close>

definition search_match :: "string \<Rightarrow> product \<Rightarrow> error + bool" where
  "search_match searchTerm p =
     (case p_name p of
        None \<Rightarrow> Inl (TypeError ''Cannot read properties of undefined (reading 'toLowerCase')'')
      | Some n \<Rightarrow>
          if str_includes (toLowerCase n) searchTerm then Inr True
          else (case description p of
                  None \<Rightarrow> Inl (TypeError ''Cannot read properties of undefined (reading 'toLowerCase')'')
                | Some d \<Rightarrow> Inr (str_includes (toLowerCase d) searchTerm)))"

definition getProducts :: "filters \<Rightarrow> product_db \<Rightarrow> error + product list" where
  "getProducts fs db =
     (let ps0 = map snd (products db);
          ps1 = (if truthy (f_type fs) then filter (\<lambda>p. p_type p = f_type fs) ps0 else ps0);
          ps2 = (if truthy (f_status fs) then filter (\<lambda>p. status p = f_status fs) ps1 else ps1);
          ps3 = (if f_active fs \<noteq> None then filter (\<lambda>p. status p = Some ''active'') ps2 else ps2)
      in if truthy (f_search fs)
         then filter_throw (search_match (toLowerCase (the (f_search fs)))) ps3
         else Inr ps3)"

text \<open>\<^verbatim>\<open>Object.assign(product, updates)\<close>: the own properties of \<open>updates\<close>, in order.\<close>

datatype field_update =
    Set_id "string option"
  | Set_name "string option"
  | Set_type "string option"
  | Set_description "string option"
  | Set_status "string option"
  | Set_createdAt "instant option"
  | Set_updatedAt "instant option"
  | Set_deletedAt "instant option"

fun assign_field :: "field_update \<Rightarrow> product \<Rightarrow> product" where
  "assign_field (Set_id v) p = p\<lparr>p_id := v\<rparr>"
| "assign_field (Set_name v) p = p\<lparr>p_name := v\<rparr>"
| "assign_field (Set_type v) p = p\<lparr>p_type := v\<rparr>"
| "assign_field (Set_description v) p = p\<lparr>description := v\<rparr>"
| "assign_field (Set_status v) p = p\<lparr>status := v\<rparr>"
| "assign_field (Set_createdAt v) p = p\<lparr>createdAt := v\<rparr>"
| "assign_field (Set_updatedAt v) p = p\<lparr>updatedAt := v\<rparr>"
| "assign_field (Set_deletedAt v) p = p\<lparr>deletedAt := v\<rparr>"

definition assign :: "product \<Rightarrow> field_update list \<Rightarrow> product" where
  "assign p updates = fold assign_field updates p"

definition updateProduct_try ::
  "instant \<Rightarrow> fs_write \<Rightarrow> string \<Rightarrow> field_update list \<Rightarrow> product_db \<Rightarrow> (error + unit) \<times> product_db" where
  "updateProduct_try t wr k updates db =
     (case map_of (products db) k of
        None \<Rightarrow> (Inl (Error (''Product with ID '' @ k @ '' not found'')), db)
      | Some product \<Rightarrow>
          let product' = (assign product updates)\<lparr>updatedAt := Some t\<rparr>
          in saveDatabase wr (db\<lparr>products := AList.update k product' (products db)\<rparr>))"

definition updateProduct ::
  "instant \<Rightarrow> fs_write \<Rightarrow> string \<Rightarrow> field_update list \<Rightarrow> product_db \<Rightarrow> (error + bool) \<times> product_db" where
  "updateProduct t wr k updates db =
     (case updateProduct_try t wr k updates db of
        (Inr _, db') \<Rightarrow> (Inr True, db')
      | (Inl e, db') \<Rightarrow> (Inr False, console_error (''Error updating product: '' @ message e) db'))"

definition deleteProduct_try ::
  "instant \<Rightarrow> instant \<Rightarrow> fs_write \<Rightarrow> string \<Rightarrow> bool \<Rightarrow> product_db \<Rightarrow> (error + unit) \<times> product_db" where
  "deleteProduct_try t1 t2 wr k hardDelete db =
     (case map_of (products db) k of
        None \<Rightarrow> (Inl (Error (''Product with ID '' @ k @ '' not found'')), db)
      | Some product \<Rightarrow>
          if hardDelete
          then saveDatabase wr (db\<lparr>products := AList.delete k (products db)\<rparr>)
          else let product' = product\<lparr>status := Some ''inactive'', deletedAt := Some t1,
                                        updatedAt := Some t2\<rparr>
               in saveDatabase wr (db\<lparr>products := AList.update k product' (products db)\<rparr>))"

definition deleteProduct ::
  "instant \<Rightarrow> instant \<Rightarrow> fs_write \<Rightarrow> string \<Rightarrow> bool \<Rightarrow> product_db \<Rightarrow> (error + bool) \<times> product_db" where
  "deleteProduct t1 t2 wr k hardDelete db =
     (case deleteProduct_try t1 t2 wr k hardDelete db of
        (Inr _, db') \<Rightarrow> (Inr True, db')
      | (Inl e, db') \<Rightarrow> (Inr False, console_error (''Error deleting product: '' @ message e) db'))"

text \<open>
  The store as the code builds it: the keys of the \<^verbatim>\<open>Map\<close> are distinct, and every
  record sits under its own \<^verbatim>\<open>id\<close> (\<^verbatim>\<open>loadDatabase\<close> and \<^verbatim>\<open>addProduct\<close> both
  call \<^verbatim>\<open>set(product.id, product)\<close>).
\<close>

definition keyed_by_id :: "product_db \<Rightarrow> bool" where
  "keyed_by_id db =
     (distinct (map fst (products db)) \<and> list_all (\<lambda>(k, p). p_id p = Some k) (products db))"

section \<open>Preview Cache (getCachedEmail / setCachedEmail)\<close>

record 'e cache_entry =
  ce_email :: 'e
  ce_timestamp :: instant

type_synonym 'e preview_cache = "string \<rightharpoonup> 'e cache_entry"

definition getCacheKey :: "string \<Rightarrow> string \<Rightarrow> string" where
  "getCacheKey customerId productId = customerId @ ''-'' @ productId"

text \<open>\<open>now\<close> is the reading of \<^verbatim>\<open>Date.now()\<close>, in milliseconds.\<close>

definition getCachedEmail :: "instant \<Rightarrow> string \<Rightarrow> string \<Rightarrow> 'e preview_cache \<Rightarrow> 'e option" where
  "getCachedEmail now customerId productId cache =
     (case cache (getCacheKey customerId productId) of
        None \<Rightarrow> None
      | Some cached \<Rightarrow>
          if now - ce_timestamp cached < 60 * 60 * 1000 then Some (ce_email cached) else None)"

definition setCachedEmail ::
  "instant \<Rightarrow> string \<Rightarrow> string \<Rightarrow> 'e \<Rightarrow> 'e preview_cache \<Rightarrow> 'e preview_cache" where
  "setCachedEmail now customerId productId email cache =
     cache(getCacheKey customerId productId \<mapsto> \<lparr>ce_email = email, ce_timestamp = now\<rparr>)"

section \<open>Matches, generated emails and the outside world\<close>

text \<open>
  A customer is a row of the spreadsheet; \<^verbatim>\<open>id\<close> and \<^verbatim>\<open>email\<close> are written \<open>c_id\<close> and
  \<open>c_email\<close>. The recommendation is whatever \<^verbatim>\<open>JSON.parse\<close> made of the model's reply,
  so each part of it may be missing. A match, a generated email and a send result each
  carry a \<^verbatim>\<open>customer\<close>, a \<^verbatim>\<open>success\<close> flag and an \<^verbatim>\<open>error\<close>: the fields are prefixed
  \<open>m_\<close>, \<open>e_\<close> and \<open>r_\<close>.
\<close>

record customer =
  c_id :: "string option"
  first_name :: "string option"
  last_name :: "string option"
  c_email :: "string option"

record rec_product =
  productId :: "string option"
  productName :: "string option"
  matchReason :: "string option"

record insights =
  primaryBenefit :: "string option"
  secondaryBenefits :: "string list option"

record offer =
  specialOffer :: "string option"

record recommendation =
  recommendedProduct :: "rec_product option"
  emailSubject :: "string option"
  personalizationInsights :: "insights option"
  offerCustomization :: "offer option"

record match =
  m_customer :: customer
  m_success :: bool
  m_error :: "string option"
  m_recommendation :: "recommendation option"
  matchedAt :: "instant option"

record personalized_product =
  pp_id :: "string option"
  pp_name :: "string option"
  details :: string
  expiryDate :: instant
  offerCode :: string
  campaign :: string

record email =
  e_customer :: customer
  e_match :: "match option"
  subject :: "string option"
  content :: "string option"
  personalizedProduct :: "personalized_product option"
  nudgingTechniques :: "string list option"
  nudgeOptimized :: "bool option"
  e_success :: bool
  fallbackMode :: "bool option"
  e_error :: "string option"

text \<open>What \<^verbatim>\<open>resendClient.emails.send\<close> resolves with: \<^verbatim>\<open>result?.data?.id\<close> and \<^verbatim>\<open>result?.id\<close>.\<close>

record send_response =
  data_id :: "string option"
  top_id :: "string option"

record send_result =
  r_customer :: customer
  emailId :: "string option"
  r_success :: bool
  sentAt :: "instant option"
  r_subject :: "string option"
  productMatched :: "string option"
  r_error :: "string option"
  resendResponse :: "send_response option"
  errorDetails :: "error option"

record payload =
  mail_from :: string
  mail_to :: "string option list"
  mail_subject :: "string option"
  mail_html :: "string option"
  x_customer_id :: string
  x_product_id :: "string option"
  x_campaign :: string
  x_offer_code :: string

text \<open>One entry of the array a batch call answers with (\<open>None\<close> is \<^verbatim>\<open>null\<close>).\<close>

record email_result =
  er_id :: "string option"
  er_error :: "string option"
  er_message :: "string option"

text \<open>
  The shapes of a batch reply that \<^verbatim>\<open>sendEmails\<close> tells apart, in the order it tests them:
  an array under \<^verbatim>\<open>data.data\<close>; otherwise an \<^verbatim>\<open>error\<close> (its \<^verbatim>\<open>message\<close> and its
  \<^verbatim>\<open>JSON.stringify\<close>); otherwise anything else (its \<^verbatim>\<open>typeof\<close>).
\<close>

datatype batch_response =
    BatchData "email_result option list"
  | BatchError "string option" string
  | BatchUnexpected string

datatype ai_request = MatchRequest customer "product list" | NudgeRequest match

text \<open>
  What a completion holds under \<^verbatim>\<open>choices[0].message.content\<close>: no first choice, a choice
  without message, a message without content, the content \<^verbatim>\<open>null\<close>, or a text.
\<close>

datatype completion = No_choice | No_message | No_content | Null_content | Content string

text \<open>The reply to the nudge prompt, after \<^verbatim>\<open>JSON.parse\<close>.\<close>

record email_data =
  ed_subject :: "string option"
  plainTextContent :: "string option"
  ed_nudgingTechniques :: "string list option"
  personalizations :: "string list option"

record nudge_email =
  n_subject :: "string option"
  htmlContent :: string
  n_plainTextContent :: "string option"
  n_nudgingTechniques :: "string list option"
  n_personalizations :: "string list option"

text \<open>
  The external collaborators. Each service is a script: what its \<open>n\<close>-th call does with the
  request it is given, either throwing (\<open>Inl\<close>) or answering. \<open>chat\<close> is
  \<^verbatim>\<open>openaiClient.chat.completions.create\<close>,
  \<open>batch_send\<close> is \<^verbatim>\<open>resendClient.batch.send\<close>, \<open>emails_send\<close> is
  \<^verbatim>\<open>resendClient.emails.send\<close>, \<open>generateEmail\<close> is the email engine handed to
  \<^verbatim>\<open>generatePersonalizedEmails\<close>, \<open>clock\<close> is the \<open>n\<close>-th reading of the system clock.
  \<open>json_recommendation\<close> and \<open>json_email_data\<close> are \<^verbatim>\<open>JSON.parse\<close> at its two call sites,
  \<open>render_html\<close> is the HTML page that \<^verbatim>\<open>convertPlainTextToHtml\<close> wraps around the text, and
  \<open>clients_ok\<close> tells whether the API keys are set, so that the matcher's constructor
  succeeds.
\<close>

record env =
  chat :: "nat \<Rightarrow> ai_request \<Rightarrow> error + completion"
  json_recommendation :: "string \<Rightarrow> error + recommendation option"
  json_email_data :: "string \<Rightarrow> error + email_data option"
  batch_send :: "nat \<Rightarrow> payload list \<Rightarrow> error + batch_response"
  emails_send :: "nat \<Rightarrow> payload \<Rightarrow> error + send_response"
  generateEmail :: "customer \<Rightarrow> personalized_product \<Rightarrow> error + string"
  clock :: "nat \<Rightarrow> nat"
  render_html :: "string \<Rightarrow> customer \<Rightarrow> rec_product \<Rightarrow> string \<Rightarrow> string"
  clients_ok :: bool

text \<open>
  What the run has done to the outside world so far: the requests made to each service, in
  order, how often the clock was read, how many one-second pauses were taken, and the
  batch headers \<^verbatim>\<open>sendEmails\<close> printed (batch number, number of batches, batch length).
\<close>

record world =
  ai_calls :: "ai_request list"
  batch_calls :: "payload list list"
  send_calls :: "payload list"
  clock_reads :: nat
  delays :: nat
  batch_log :: "(nat \<times> nat \<times> nat) list"

definition read_clock :: "env \<Rightarrow> world \<Rightarrow> nat \<times> world" where
  "read_clock env w = (clock env (clock_reads w), w\<lparr>clock_reads := Suc (clock_reads w)\<rparr>)"

definition delay :: "world \<Rightarrow> world" where
  "delay w = w\<lparr>delays := Suc (delays w)\<rparr>"

definition call_chat :: "env \<Rightarrow> ai_request \<Rightarrow> world \<Rightarrow> (error + completion) \<times> world" where
  "call_chat env req w = (chat env (length (ai_calls w)) req, w\<lparr>ai_calls := ai_calls w @ [req]\<rparr>)"

section \<open>Matcher (matchCustomersToProducts)\<close>

text \<open>
  \<^verbatim>\<open>JSON.parse(response.choices[0].message.content)\<close>: reading through a missing choice
  or message throws, a missing content makes \<^verbatim>\<open>JSON.parse\<close> throw, and the content
  \<^verbatim>\<open>null\<close> parses to \<^verbatim>\<open>null\<close>.
\<close>

definition parse_match_reply :: "env \<Rightarrow> completion \<Rightarrow> error + recommendation option" where
  "parse_match_reply env response =
     (case response of
        No_choice \<Rightarrow> Inl (TypeError ''Cannot read properties of undefined (reading 'message')'')
      | No_message \<Rightarrow> Inl (TypeError ''Cannot read properties of undefined (reading 'content')'')
      | No_content \<Rightarrow> Inl (SyntaxError ''Unexpected token u in JSON at position 0'')
      | Null_content \<Rightarrow> Inr None
      | Content reply \<Rightarrow> json_recommendation env reply)"

text \<open>
  \<^verbatim>\<open>matchSingleCustomer\<close>: one completion request, parsed as JSON; every failure is
  rethrown as \<^verbatim>\<open>AI matching failed: ...\<close>.
\<close>

definition matchSingleCustomer ::
  "env \<Rightarrow> customer \<Rightarrow> product list \<Rightarrow> world \<Rightarrow> (error + match) \<times> world" where
  "matchSingleCustomer env customer ps w =
     (case call_chat env (MatchRequest customer ps) w of
        (Inl e, w1) \<Rightarrow> (Inl (Error (''AI matching failed: '' @ message e)), w1)
      | (Inr response, w1) \<Rightarrow>
          (case parse_match_reply env response of
             Inl e \<Rightarrow> (Inl (Error (''AI matching failed: '' @ message e)), w1)
           | Inr matchResult \<Rightarrow>
               (case read_clock env w1 of
                  (now, w2) \<Rightarrow>
                    (Inr \<lparr>m_customer = customer, m_success = True, m_error = None,
                          m_recommendation = matchResult, matchedAt = Some (int now)\<rparr>, w2))))"

text \<open>The body of the \<^verbatim>\<open>for\<close> loop: the \<^verbatim>\<open>try\<close> with its pause, and the \<^verbatim>\<open>catch\<close>.\<close>

definition match_iteration :: "env \<Rightarrow> customer \<Rightarrow> product list \<Rightarrow> world \<Rightarrow> match \<times> world" where
  "match_iteration env customer ps w =
     (case matchSingleCustomer env customer ps w of
        (Inr m, w1) \<Rightarrow> (m, delay w1)
      | (Inl e, w1) \<Rightarrow>
          (\<lparr>m_customer = customer, m_success = False, m_error = Some (message e),
            m_recommendation = None, matchedAt = None\<rparr>, w1))"

fun match_loop ::
  "env \<Rightarrow> customer list \<Rightarrow> product list \<Rightarrow> match list \<Rightarrow> world \<Rightarrow> match list \<times> world" where
  "match_loop env [] ps matches w = (matches, w)"
| "match_loop env (customer # rest) ps matches w =
     (case match_iteration env customer ps w of
        (m, w1) \<Rightarrow> match_loop env rest ps (matches @ [m]) w1)"

definition matchCustomersToProducts ::
  "env \<Rightarrow> customer list \<Rightarrow> product list \<Rightarrow> world \<Rightarrow> match list \<times> world" where
  "matchCustomersToProducts env customers ps w = match_loop env customers ps [] w"

section \<open>Bulk Email Dispatcher: generation (generatePersonalizedEmails)\<close>

text \<open>
  The helpers build strings; what matters to the dispatcher is where they throw. Characters
  outside ASCII (the bullet of the benefit list, the emoji of the sender name) are replaced,
  and the rendering of dates is left out: \<open>expiryDate\<close> is the instant thirty days after the
  clock reading.
\<close>

definition nl :: string where
  "nl = [CHR 0x0A]"

definition generateOfferCode :: "env \<Rightarrow> customer \<Rightarrow> world \<Rightarrow> (error + string) \<times> world" where
  "generateOfferCode env customer w =
     (case first_name customer of
        None \<Rightarrow> (Inl (TypeError ''Cannot read properties of undefined (reading 'charAt')''), w)
      | Some f \<Rightarrow>
          (case last_name customer of
             None \<Rightarrow> (Inl (TypeError ''Cannot read properties of undefined (reading 'charAt')''), w)
           | Some l \<Rightarrow>
               (case read_clock env w of
                  (now, w1) \<Rightarrow> (Inr (''CB'' @ take 1 f @ take 1 l @ last6 (decimal now)), w1))))"

definition generateOfferExpiry :: "env \<Rightarrow> world \<Rightarrow> instant \<times> world" where
  "generateOfferExpiry env w =
     (case read_clock env w of (now, w1) \<Rightarrow> (int now + 30 * 24 * 60 * 60 * 1000, w1))"

definition buildPersonalizedProductDetails :: "match \<Rightarrow> error + string" where
  "buildPersonalizedProductDetails match =
     (case m_recommendation match of
        None \<Rightarrow> Inl (TypeError ''Cannot read properties of undefined (reading 'recommendedProduct')'')
      | Some r \<Rightarrow>
     (case recommendedProduct r of
        None \<Rightarrow> Inl (TypeError ''Cannot read properties of undefined (reading 'productName')'')
      | Some rp \<Rightarrow>
     (case personalizationInsights r of
        None \<Rightarrow> Inl (TypeError ''Cannot read properties of undefined (reading 'primaryBenefit')'')
      | Some ins \<Rightarrow>
     (case secondaryBenefits ins of
        None \<Rightarrow> Inl (TypeError ''Cannot read properties of undefined (reading 'forEach')'')
      | Some benefits \<Rightarrow>
     (case offerCustomization r of
        None \<Rightarrow> Inl (TypeError ''Cannot read properties of undefined (reading 'specialOffer')'')
      | Some oc \<Rightarrow>
          Inr (''Dear '' @ str (first_name (m_customer match)) @ '','' @ nl @ nl @
               ''Based on your profile, we've identified the perfect financial solution for you: '' @
               str (productName rp) @ ''.'' @ nl @ nl @
               str (matchReason rp) @ nl @ nl @
               ''Here's what makes this offer special for you:'' @ nl @
               ''* '' @ str (primaryBenefit ins) @ nl @
               concat (map (\<lambda>benefit. ''* '' @ benefit @ nl) benefits) @
               (if truthy (specialOffer oc)
                then nl @ ''Exclusive Offer: '' @ the (specialOffer oc) @ nl else []) @
               nl @ ''This recommendation is based on our analysis of your profile and current financial products market. We believe this product aligns perfectly with your financial goals and current life stage.''))))))"

text \<open>
  The lines that read \<^verbatim>\<open>productId\<close> and build the \<^verbatim>\<open>personalizedProduct\<close> object; they
  appear twice in \<^verbatim>\<open>generatePersonalizedEmails\<close>, once in each \<^verbatim>\<open>try\<close>. A recommendation
  that is \<^verbatim>\<open>null\<close> (a reply that parses to \<^verbatim>\<open>null\<close>) and one that is missing are both
  \<open>None\<close>. Reading \<^verbatim>\<open>recommendedProduct\<close> through either throws a \<^verbatim>\<open>TypeError\<close>; its message
  names \<^verbatim>\<open>null\<close> for the first and \<^verbatim>\<open>undefined\<close> for the second, and the message here and in
  \<open>generateNudgeOptimizedEmail\<close> is that of the second.
\<close>

definition personalizedProduct_of ::
  "env \<Rightarrow> match \<Rightarrow> world \<Rightarrow> (error + personalized_product) \<times> world" where
  "personalizedProduct_of env match w =
     (case m_recommendation match of
        None \<Rightarrow> (Inl (TypeError ''Cannot read properties of undefined (reading 'recommendedProduct')''), w)
      | Some r \<Rightarrow>
     (case recommendedProduct r of
        None \<Rightarrow> (Inl (TypeError ''Cannot read properties of undefined (reading 'productId')''), w)
      | Some rp \<Rightarrow>
     (case buildPersonalizedProductDetails match of
        Inl e \<Rightarrow> (Inl e, w)
      | Inr d \<Rightarrow>
     (case generateOfferExpiry env w of
        (expiry, w1) \<Rightarrow>
     (case generateOfferCode env (m_customer match) w1 of
        (Inl e, w2) \<Rightarrow> (Inl e, w2)
      | (Inr code, w2) \<Rightarrow>
          (Inr \<lparr>pp_id = productId rp, pp_name = productName rp, details = d,
                expiryDate = expiry, offerCode = code, campaign = ''ai_matched_offers_2025''\<rparr>,
           w2))))))"

definition convertPlainTextToHtml ::
  "env \<Rightarrow> string \<Rightarrow> customer \<Rightarrow> rec_product \<Rightarrow> world \<Rightarrow> (error + string) \<times> world" where
  "convertPlainTextToHtml env plainText customer product w =
     (case generateOfferCode env customer w of
        (Inl e, w1) \<Rightarrow> (Inl e, w1)
      | (Inr code, w1) \<Rightarrow> (Inr (render_html env plainText customer product code), w1))"

text \<open>\<^verbatim>\<open>completion.choices[0]?.message?.content\<close>.\<close>

definition content_of :: "completion \<Rightarrow> string option" where
  "content_of c = (case c of Content reply \<Rightarrow> Some reply | _ \<Rightarrow> None)"

text \<open>The body of the \<^verbatim>\<open>try\<close> of \<^verbatim>\<open>generateNudgeOptimizedEmail\<close>.\<close>

definition nudge_try ::
  "env \<Rightarrow> match \<Rightarrow> rec_product \<Rightarrow> world \<Rightarrow> (error + nudge_email) \<times> world" where
  "nudge_try env match product w =
     (case call_chat env (NudgeRequest match) w of
        (Inl e, w1) \<Rightarrow> (Inl e, w1)
      | (Inr completion, w1) \<Rightarrow>
          let response = content_of completion in
          if \<not> truthy response then (Inl (Error ''No response generated from OpenAI''), w1)
          else
            (case json_email_data env (the response) of
               Inl parseError \<Rightarrow>
                 (Inl (Error (''AI response was not valid JSON: '' @ message parseError)), w1)
             | Inr None \<Rightarrow>
                 (Inl (TypeError ''Cannot read properties of null (reading 'subject')''), w1)
             | Inr (Some emailData) \<Rightarrow>
                 if \<not> truthy (ed_subject emailData) \<or> \<not> truthy (plainTextContent emailData)
                 then (Inl (Error ''Invalid email structure returned from AI - missing subject or plainTextContent''), w1)
                 else
                   (case convertPlainTextToHtml env (the (plainTextContent emailData))
                           (m_customer match) product w1 of
                      (Inl e, w2) \<Rightarrow> (Inl e, w2)
                    | (Inr html, w2) \<Rightarrow>
                        (Inr \<lparr>n_subject = ed_subject emailData, htmlContent = html,
                              n_plainTextContent = plainTextContent emailData,
                              n_nudgingTechniques = ed_nudgingTechniques emailData,
                              n_personalizations = personalizations emailData\<rparr>, w2))))"

definition generateNudgeOptimizedEmail ::
  "env \<Rightarrow> match \<Rightarrow> world \<Rightarrow> (error + nudge_email) \<times> world" where
  "generateNudgeOptimizedEmail env match w =
     (case m_recommendation match of
        None \<Rightarrow> (Inl (TypeError ''Cannot read properties of undefined (reading 'recommendedProduct')''), w)
      | Some r \<Rightarrow>
     (case recommendedProduct r of
        None \<Rightarrow> (Inl (TypeError ''Cannot read properties of undefined (reading 'productName')''), w)
      | Some product \<Rightarrow>
     (case nudge_try env match product w of
        (Inl e, w1) \<Rightarrow> (Inl (Error (''Failed to generate nudge-optimized email: '' @ message e)), w1)
      | (Inr nudgeEmail, w1) \<Rightarrow> (Inr nudgeEmail, w1))))"

text \<open>The entry pushed for a match that yields no email.\<close>

definition failed_email :: "customer \<Rightarrow> string option \<Rightarrow> email" where
  "failed_email customer err =
     \<lparr>e_customer = customer, e_match = None, subject = None, content = None,
      personalizedProduct = None, nudgingTechniques = None, nudgeOptimized = None,
      e_success = False, fallbackMode = None, e_error = err\<rparr>"

text \<open>The outer \<^verbatim>\<open>try\<close>: the AI-written email.\<close>

definition nudge_branch :: "env \<Rightarrow> match \<Rightarrow> world \<Rightarrow> (error + email) \<times> world" where
  "nudge_branch env match w =
     (case generateNudgeOptimizedEmail env match w of
        (Inl e, w1) \<Rightarrow> (Inl e, w1)
      | (Inr nudgeEmail, w1) \<Rightarrow>
          (case personalizedProduct_of env match w1 of
             (Inl e, w2) \<Rightarrow> (Inl e, w2)
           | (Inr pp, w2) \<Rightarrow>
               (Inr \<lparr>e_customer = m_customer match, e_match = Some match,
                     subject = n_subject nudgeEmail, content = Some (htmlContent nudgeEmail),
                     personalizedProduct = Some pp,
                     nudgingTechniques = n_nudgingTechniques nudgeEmail,
                     nudgeOptimized = Some True, e_success = True, fallbackMode = None,
                     e_error = None\<rparr>, w2)))"

text \<open>The \<^verbatim>\<open>try\<close> inside the \<^verbatim>\<open>catch\<close>: the templated email of the email engine.\<close>

definition fallback_branch :: "env \<Rightarrow> match \<Rightarrow> world \<Rightarrow> (error + email) \<times> world" where
  "fallback_branch env match w =
     (case personalizedProduct_of env match w of
        (Inl e, w1) \<Rightarrow> (Inl e, w1)
      | (Inr pp, w1) \<Rightarrow>
          (case generateEmail env (m_customer match) pp of
             Inl e \<Rightarrow> (Inl e, w1)
           | Inr emailContent \<Rightarrow>
               (Inr \<lparr>e_customer = m_customer match, e_match = Some match,
                     subject = emailSubject (the (m_recommendation match)),
                     content = Some emailContent, personalizedProduct = Some pp,
                     nudgingTechniques = None, nudgeOptimized = Some False, e_success = True,
                     fallbackMode = Some True, e_error = None\<rparr>, w1)))"

text \<open>One turn of the loop over the matches.\<close>

definition generate_email :: "env \<Rightarrow> match \<Rightarrow> world \<Rightarrow> email \<times> world" where
  "generate_email env match w =
     (if \<not> m_success match then (failed_email (m_customer match) (m_error match), w)
      else
        (case nudge_branch env match w of
           (Inr email, w1) \<Rightarrow> (email, w1)
         | (Inl error, w1) \<Rightarrow>
             (case fallback_branch env match w1 of
                (Inr email, w2) \<Rightarrow> (email, w2)
              | (Inl fallbackError, w2) \<Rightarrow>
                  (failed_email (m_customer match) (Some (message fallbackError)), w2))))"

fun generate_loop :: "env \<Rightarrow> match list \<Rightarrow> email list \<Rightarrow> world \<Rightarrow> email list \<times> world" where
  "generate_loop env [] emails w = (emails, w)"
| "generate_loop env (match # rest) emails w =
     (case generate_email env match w of
        (email, w1) \<Rightarrow> generate_loop env rest (emails @ [email]) w1)"

definition generatePersonalizedEmails :: "env \<Rightarrow> match list \<Rightarrow> world \<Rightarrow> email list \<times> world" where
  "generatePersonalizedEmails env matches w = generate_loop env matches [] w"

section \<open>Bulk Email Dispatcher: sending (sendEmails)\<close>

record options =
  fromName :: "string option"
  batchSize :: "nat option"

definition failed_result :: "customer \<Rightarrow> string \<Rightarrow> send_result" where
  "failed_result customer err =
     \<lparr>r_customer = customer, emailId = None, r_success = False, sentAt = None,
      r_subject = None, productMatched = None, r_error = Some err,
      resendResponse = None, errorDetails = None\<rparr>"

text \<open>The callback of \<^verbatim>\<open>batch.map\<close>: the payload of one email, \<open>sender\<close> being its \<^verbatim>\<open>from\<close> line.\<close>

definition batch_payload :: "string \<Rightarrow> email \<Rightarrow> error + payload" where
  "batch_payload sender email =
     (case personalizedProduct email of
        None \<Rightarrow> Inl (TypeError ''Cannot read properties of undefined (reading 'id')'')
      | Some pp \<Rightarrow>
          (case content email of
             None \<Rightarrow> Inl (TypeError ''Cannot read properties of undefined (reading 'length')'')
           | Some html \<Rightarrow>
               Inr \<lparr>mail_from = sender, mail_to = [c_email (e_customer email)],
                    mail_subject = subject email, mail_html = Some html,
                    x_customer_id = js_or (c_id (e_customer email)) ''unknown'',
                    x_product_id = pp_id pp, x_campaign = campaign pp,
                    x_offer_code = offerCode pp\<rparr>))"

text \<open>\<^verbatim>\<open>email.match.recommendation.recommendedProduct.productName\<close>.\<close>

definition productMatched_of :: "email \<Rightarrow> error + string option" where
  "productMatched_of email =
     (case e_match email of
        None \<Rightarrow> Inl (TypeError ''Cannot read properties of undefined (reading 'recommendation')'')
      | Some m \<Rightarrow>
     (case m_recommendation m of
        None \<Rightarrow> Inl (TypeError ''Cannot read properties of undefined (reading 'recommendedProduct')'')
      | Some r \<Rightarrow>
     (case recommendedProduct r of
        None \<Rightarrow> Inl (TypeError ''Cannot read properties of undefined (reading 'productName')'')
      | Some rp \<Rightarrow> Inr (productName rp))))"

text \<open>\<^verbatim>\<open>emailResult && emailResult.id\<close>.\<close>

definition has_id :: "email_result option \<Rightarrow> bool" where
  "has_id emailResult = (case emailResult of None \<Rightarrow> False | Some er \<Rightarrow> truthy (er_id er))"

text \<open>\<^verbatim>\<open>emailResult?.error || emailResult?.message || 'Unknown batch send error'\<close>.\<close>

definition errorMsg_of :: "email_result option \<Rightarrow> string" where
  "errorMsg_of emailResult =
     (case emailResult of
        None \<Rightarrow> ''Unknown batch send error''
      | Some er \<Rightarrow> js_or (er_error er) (js_or (er_message er) ''Unknown batch send error''))"

text \<open>
  \<^verbatim>\<open>batchResult.data.data.forEach((emailResult, index) => ...)\<close>: the entries of the reply
  from \<open>index\<close> on. An entry beyond the end of the batch finds \<^verbatim>\<open>batch[index]\<close> undefined
  and throws; the results pushed before a throw stay in \<open>results\<close>.
\<close>

fun process_results ::
  "env \<Rightarrow> email list \<Rightarrow> email_result option list \<Rightarrow> nat \<Rightarrow> send_result list \<Rightarrow> world \<Rightarrow>
     (error + unit) \<times> send_result list \<times> world" where
  "process_results env batch [] index results w = (Inr (), results, w)"
| "process_results env batch (emailResult # rest) index results w =
     (if index < length batch then
        (let email = batch ! index in
         if has_id emailResult then
           (case read_clock env w of
              (now, w1) \<Rightarrow>
                (case productMatched_of email of
                   Inl e \<Rightarrow> (Inl e, results, w1)
                 | Inr pm \<Rightarrow>
                     process_results env batch rest (Suc index)
                       (results @
                        [\<lparr>r_customer = e_customer email, emailId = er_id (the emailResult),
                          r_success = True, sentAt = Some (int now), r_subject = subject email,
                          productMatched = pm, r_error = None, resendResponse = None,
                          errorDetails = None\<rparr>]) w1))
         else process_results env batch rest (Suc index)
                (results @ [failed_result (e_customer email) (errorMsg_of emailResult)]) w)
      else (Inl (TypeError ''Cannot read properties of undefined (reading 'customer')''), results, w))"

text \<open>
  The body of the \<^verbatim>\<open>try\<close> of one batch; \<open>pause\<close> is \<^verbatim>\<open>i + batchSize < validEmails.length\<close>,
  the condition of the pause before the next batch.
\<close>

definition send_batch_try ::
  "env \<Rightarrow> string \<Rightarrow> email list \<Rightarrow> bool \<Rightarrow> send_result list \<Rightarrow> world \<Rightarrow>
     (error + unit) \<times> send_result list \<times> world" where
  "send_batch_try env sender batch pause results w =
     (case map_throw (batch_payload sender) batch of
        Inl e \<Rightarrow> (Inl e, results, w)
      | Inr batchPayload \<Rightarrow>
          (let n = length (batch_calls w);
               w1 = w\<lparr>batch_calls := batch_calls w @ [batchPayload]\<rparr>
           in case batch_send env n batchPayload of
                Inl e \<Rightarrow> (Inl e, results, w1)
              | Inr (BatchData rs) \<Rightarrow>
                  (case process_results env batch rs 0 results w1 of
                     (Inl e, results', w2) \<Rightarrow> (Inl e, results', w2)
                   | (Inr u, results', w2) \<Rightarrow>
                       (Inr (), results', if pause then delay w2 else w2))
              | Inr (BatchError msg json) \<Rightarrow>
                  (Inl (Error (''Resend API error: '' @ js_or msg json)), results, w1)
              | Inr (BatchUnexpected ty) \<Rightarrow>
                  (Inl (Error (''Invalid batch response format from Resend API. Expected {data: {data: Array}}, got: '' @ ty)),
                   results, w1)))"

text \<open>The \<^verbatim>\<open>try\<close> and its \<^verbatim>\<open>catch\<close>, which marks every email of the batch as failed.\<close>

definition send_batch ::
  "env \<Rightarrow> string \<Rightarrow> email list \<Rightarrow> bool \<Rightarrow> send_result list \<Rightarrow> world \<Rightarrow>
     send_result list \<times> world" where
  "send_batch env sender batch pause results w =
     (case send_batch_try env sender batch pause results w of
        (Inr u, results', w') \<Rightarrow> (results', w')
      | (Inl error, results', w') \<Rightarrow>
          (results' @ map (\<lambda>email. failed_result (e_customer email)
                                     (''Batch send failed: '' @ message error)) batch,
           w'))"

text \<open>\<^verbatim>\<open>Math.ceil(n / batchSize)\<close> on natural numbers.\<close>

definition ceil_div :: "nat \<Rightarrow> nat \<Rightarrow> nat" where
  "ceil_div n bs = (n + bs - 1) div bs"

definition announce_batch :: "nat \<times> nat \<times> nat \<Rightarrow> world \<Rightarrow> world" where
  "announce_batch line w = w\<lparr>batch_log := batch_log w @ [line]\<rparr>"

text \<open>
  \<^verbatim>\<open>for (let i = 0; i < validEmails.length; i += batchSize)\<close>, from the index \<open>i\<close> on.
  With a batch size of zero the index never moves and the loop does not return: the
  result is \<open>None\<close>.
\<close>

function send_batches ::
  "env \<Rightarrow> string \<Rightarrow> nat \<Rightarrow> email list \<Rightarrow> nat \<Rightarrow> send_result list \<Rightarrow> world \<Rightarrow>
     (send_result list \<times> world) option" where
  "send_batches env sender bs validEmails i results w =
     (if i < length validEmails then
        (if bs = 0 then None
         else
           (case send_batch env sender (take bs (drop i validEmails))
                   (i + bs < length validEmails) results
                   (announce_batch (i div bs + 1, ceil_div (length validEmails) bs,
                                    length (take bs (drop i validEmails))) w) of
              (results', w') \<Rightarrow> send_batches env sender bs validEmails (i + bs) results' w'))
      else Some (results, w))"
  by pat_completeness auto
termination
  by (relation "measure (\<lambda>(env, sender, bs, validEmails, i, results, w). length validEmails - i)") auto

declare send_batches.simps [simp del]

definition sendEmails ::
  "env \<Rightarrow> email list \<Rightarrow> options \<Rightarrow> world \<Rightarrow> (send_result list \<times> world) option" where
  "sendEmails env emails opts w =
     (let sender = js_or (fromName opts) ''Customer Bank'' @ '' <no-reply@customerbank.com>'';
          bs = (case batchSize opts of None \<Rightarrow> 100 | Some n \<Rightarrow> if n = 0 then 100 else n);
          validEmails = filter e_success emails;
          failedEmails = filter (\<lambda>email. \<not> e_success email) emails;
          results = map (\<lambda>email. failed_result (e_customer email)
                                    (js_or (e_error email) ''Email generation failed''))
                        failedEmails
      in if validEmails = [] then Some (results, w)
         else send_batches env sender bs validEmails 0 results w)"

text \<open>
  A dispatch run: steps 2 and 3 of \<^verbatim>\<open>runCompleteWorkflow\<close>, the generation over the matches
  followed by the sending of all the generated emails.
\<close>

definition dispatch ::
  "env \<Rightarrow> match list \<Rightarrow> options \<Rightarrow> world \<Rightarrow> (send_result list \<times> world) option" where
  "dispatch env matches opts w =
     (case generatePersonalizedEmails env matches w of
        (emails, w1) \<Rightarrow> sendEmails env emails opts w1)"

section \<open>Bulk Email Dispatcher: the progress variant (POST /api/ai/send-emails-with-progress)\<close>

text \<open>
  The events written to the stream, by their type and the numbers their message carries;
  the percentage of an event is computed from those numbers in floating point and is not
  modelled.
\<close>

record summary =
  totalMatches :: nat
  emailsGenerated :: nat
  emailsSent :: nat
  successfulSends :: nat
  failedSends :: nat

datatype event =
    Start
  | Generating
  | Generated nat nat
  | Error_event string
  | Delivery
  | Sending_batch nat nat nat
  | Batch_complete nat nat nat "send_result list"
  | Complete "send_result list" summary

datatype response = Bad_request string | Event_stream "event list"

text \<open>The address the email goes to: the customer's, or one made of the lowercased names.\<close>

definition customerEmail_of :: "customer \<Rightarrow> error + string" where
  "customerEmail_of customer =
     (if truthy (c_email customer) then Inr (the (c_email customer))
      else
        (case first_name customer of
           None \<Rightarrow> Inl (TypeError ''Cannot read properties of undefined (reading 'toLowerCase')'')
         | Some f \<Rightarrow>
             (case last_name customer of
                None \<Rightarrow> Inl (TypeError ''Cannot read properties of undefined (reading 'toLowerCase')'')
              | Some l \<Rightarrow> Inr (toLowerCase f @ ''.'' @ toLowerCase l @ ''@example.com''))))"

definition progress_payload :: "email \<Rightarrow> error + payload" where
  "progress_payload email =
     (case customerEmail_of (e_customer email) of
        Inl e \<Rightarrow> Inl e
      | Inr customerEmail \<Rightarrow>
          (case personalizedProduct email of
             None \<Rightarrow> Inl (TypeError ''Cannot read properties of undefined (reading 'id')'')
           | Some pp \<Rightarrow>
               Inr \<lparr>mail_from = ''Customer Bank Offers <no-reply@noreply.kidsched.com>'',
                    mail_to = [Some customerEmail], mail_subject = subject email,
                    mail_html = content email,
                    x_customer_id = js_or (c_id (e_customer email)) ''unknown'',
                    x_product_id = pp_id pp, x_campaign = campaign pp,
                    x_offer_code = offerCode pp\<rparr>))"

text \<open>The \<^verbatim>\<open>try\<close> of the callback that sends one email of a batch.\<close>

definition progress_send_try :: "env \<Rightarrow> email \<Rightarrow> world \<Rightarrow> (error + send_result) \<times> world" where
  "progress_send_try env email w =
     (case progress_payload email of
        Inl e \<Rightarrow> (Inl e, w)
      | Inr p \<Rightarrow>
          (let n = length (send_calls w);
               w1 = w\<lparr>send_calls := send_calls w @ [p]\<rparr>
           in case emails_send env n p of
                Inl e \<Rightarrow> (Inl e, w1)
              | Inr result \<Rightarrow>
                  (case read_clock env w1 of
                     (now, w2) \<Rightarrow>
                       (case productMatched_of email of
                          Inl e \<Rightarrow> (Inl e, w2)
                        | Inr pm \<Rightarrow>
                            (Inr \<lparr>r_customer = e_customer email,
                                  emailId = Some (js_or (data_id result)
                                                    (js_or (top_id result) ''unknown'')),
                                  r_success = True, sentAt = Some (int now),
                                  r_subject = subject email, productMatched = pm,
                                  r_error = None, resendResponse = Some result,
                                  errorDetails = None\<rparr>, w2)))))"

definition progress_send :: "env \<Rightarrow> email \<Rightarrow> world \<Rightarrow> send_result \<times> world" where
  "progress_send env email w =
     (case progress_send_try env email w of
        (Inr r, w') \<Rightarrow> (r, w')
      | (Inl error, w') \<Rightarrow>
          (\<lparr>r_customer = e_customer email, emailId = None, r_success = False, sentAt = None,
            r_subject = None, productMatched = None, r_error = Some (message error),
            resendResponse = None, errorDetails = Some error\<rparr>, w'))"

text \<open>
  \<^verbatim>\<open>Promise.all(batch.map(async ...))\<close>: the send calls are issued in the order of the batch
  and the results keep that order. The sends are taken to settle in the order they were
  issued; another order only changes which clock reading lands in which \<^verbatim>\<open>sentAt\<close>.
\<close>

fun progress_send_all :: "env \<Rightarrow> email list \<Rightarrow> world \<Rightarrow> send_result list \<times> world" where
  "progress_send_all env [] w = ([], w)"
| "progress_send_all env (email # rest) w =
     (case progress_send env email w of
        (r, w1) \<Rightarrow> (case progress_send_all env rest w1 of (rs, w2) \<Rightarrow> (r # rs, w2)))"

text \<open>\<^verbatim>\<open>for (let i = 0; i < successfulEmails.length; i += batchSize)\<close> with \<^verbatim>\<open>batchSize = 3\<close>.\<close>

function progress_loop ::
  "env \<Rightarrow> email list \<Rightarrow> nat \<Rightarrow> send_result list \<Rightarrow> event list \<Rightarrow> world \<Rightarrow>
     send_result list \<times> event list \<times> world" where
  "progress_loop env successfulEmails i emailResults events w =
     (if i < length successfulEmails then
        (case progress_send_all env (take 3 (drop i successfulEmails)) w of
           (batchResults, w1) \<Rightarrow>
             progress_loop env successfulEmails (i + 3) (emailResults @ batchResults)
               (events @
                [Sending_batch (i div 3 + 1) (ceil_div (length successfulEmails) 3)
                   (length (take 3 (drop i successfulEmails))),
                 Batch_complete (i div 3 + 1)
                   (length (filter r_success (emailResults @ batchResults)))
                   (length (emailResults @ batchResults)) batchResults])
               (if i + 3 < length successfulEmails then delay w1 else w1))
      else (emailResults, events, w))"
  by pat_completeness auto
termination
  by (relation "measure (\<lambda>(env, successfulEmails, i, emailResults, events, w).
                           length successfulEmails - i)") auto

declare progress_loop.simps [simp del]

definition send_emails_with_progress :: "env \<Rightarrow> match list \<Rightarrow> world \<Rightarrow> response \<times> world" where
  "send_emails_with_progress env matches w =
     (if matches = [] then (Bad_request ''Valid matches array is required'', w)
      else if \<not> clients_ok env
      then (Event_stream [Start, Error_event ''Error: Failed to initialize API clients''], w)
      else
        (case generatePersonalizedEmails env matches w of
           (emails, w1) \<Rightarrow>
             (let successfulEmails = filter e_success emails;
                  events = [Start, Generating, Generated (length successfulEmails) (length emails)]
              in if successfulEmails = []
                 then (Event_stream (events @ [Error_event ''No emails could be generated from matches'']), w1)
                 else
                   (case progress_loop env successfulEmails 0 [] (events @ [Delivery]) w1 of
                      (emailResults, events', w2) \<Rightarrow>
                        (Event_stream
                           (events' @
                            [Complete emailResults
                               \<lparr>totalMatches = length matches,
                                emailsGenerated = length successfulEmails,
                                emailsSent = length emailResults,
                                successfulSends = length (filter r_success emailResults),
                                failedSends = length emailResults -
                                              length (filter r_success emailResults)\<rparr>]),
                         w2)))))"

section \<open>Notions used in the properties\<close>

text \<open>
  What the \<open>n\<close>-th completion request brings for a customer, after \<^verbatim>\<open>JSON.parse\<close>: the
  error thrown inside \<^verbatim>\<open>matchSingleCustomer\<close>, or the recommendation.
\<close>

definition match_outcome :: "env \<Rightarrow> product list \<Rightarrow> nat \<Rightarrow> customer \<Rightarrow> error + recommendation option" where
  "match_outcome env ps n customer =
     (case chat env n (MatchRequest customer ps) of
        Inl e \<Rightarrow> Inl e
      | Inr response \<Rightarrow> parse_match_reply env response)"

text \<open>
  The match recorded for a customer under such an outcome: the failed entry of the
  \<^verbatim>\<open>catch\<close> with the rethrown message, or a successful match carrying the recommendation.
\<close>

definition recorded :: "customer \<Rightarrow> error + recommendation option \<Rightarrow> match \<Rightarrow> bool" where
  "recorded c outcome m =
     (case outcome of
        Inl e \<Rightarrow> m = \<lparr>m_customer = c, m_success = False,
                        m_error = Some (''AI matching failed: '' @ message e),
                        m_recommendation = None, matchedAt = None\<rparr>
      | Inr r \<Rightarrow> m_customer m = c \<and> m_success m \<and> m_error m = None \<and> m_recommendation m = r)"

text \<open>
  The shape of an email that \<^verbatim>\<open>generatePersonalizedEmails\<close> marks successful: it has its
  personalized product, its content and its match with a recommended product, and the
  customer has both names (\<^verbatim>\<open>generateOfferCode\<close> read them).
\<close>

definition sendable :: "email \<Rightarrow> bool" where
  "sendable email =
     (personalizedProduct email \<noteq> None \<and> content email \<noteq> None \<and>
      \<not> isl (productMatched_of email) \<and>
      first_name (e_customer email) \<noteq> None \<and> last_name (e_customer email) \<noteq> None)"

text \<open>
  The batch service answers each message: an array reply has as many entries as the batch
  submitted.
\<close>

definition answers_each :: "env \<Rightarrow> bool" where
  "answers_each env =
     (\<forall>n ps rs. batch_send env n ps = Inr (BatchData rs) \<longrightarrow> length rs = length ps)"

text \<open>The \<^verbatim>\<open>from\<close> line, the batch size and the initial results of \<^verbatim>\<open>sendEmails\<close>.\<close>

definition sender_of :: "options \<Rightarrow> string" where
  "sender_of opts = js_or (fromName opts) ''Customer Bank'' @ '' <no-reply@customerbank.com>''"

definition batchSize_of :: "options \<Rightarrow> nat" where
  "batchSize_of opts = (case batchSize opts of None \<Rightarrow> 100 | Some n \<Rightarrow> if n = 0 then 100 else n)"

definition generation_failures :: "email list \<Rightarrow> send_result list" where
  "generation_failures emails =
     map (\<lambda>email. failed_result (e_customer email) (js_or (e_error email) ''Email generation failed''))
         (filter (\<lambda>email. \<not> e_success email) emails)"

text \<open>
  The header \<^verbatim>\<open>sendEmails\<close> prints for batch \<open>k\<close> (counted from zero) of \<open>n\<close> emails sent
  \<open>bs\<close> at a time: its number, the number of batches and its length.
\<close>

definition batch_line :: "nat \<Rightarrow> nat \<Rightarrow> nat \<Rightarrow> nat \<times> nat \<times> nat" where
  "batch_line n bs k = (k + 1, ceil_div n bs, min bs (n - k * bs))"

text \<open>The \<^verbatim>\<open>Sending batch\<close> events of a progress stream, by the numbers they carry.\<close>

definition sending_line :: "event \<Rightarrow> (nat \<times> nat \<times> nat) option" where
  "sending_line ev = (case ev of Sending_batch k t n \<Rightarrow> Some (k, t, n) | _ \<Rightarrow> None)"

definition sending_batches :: "event list \<Rightarrow> (nat \<times> nat \<times> nat) list" where
  "sending_batches evs = List.map_filter sending_line evs"

text \<open>
  A result without its time stamp. The \<^verbatim>\<open>sentAt\<close> of a result is a reading of the clock;
  the outcomes below are stated up to it.
\<close>

definition untimed :: "send_result \<Rightarrow> send_result" where
  "untimed r = r\<lparr>sentAt := None\<rparr>"

text \<open>
  What \<^verbatim>\<open>sendEmails\<close> records for one email of a batch under the entry of the reply that
  answers it: a success carrying the id of the entry, or a failure carrying the error of
  the entry.
\<close>

definition entry_outcome :: "email \<Rightarrow> email_result option \<Rightarrow> send_result" where
  "entry_outcome email entry =
     (if has_id entry
      then \<lparr>r_customer = e_customer email, emailId = er_id (the entry), r_success = True,
            sentAt = None, r_subject = subject email,
            productMatched = projr (productMatched_of email), r_error = None,
            resendResponse = None, errorDetails = None\<rparr>
      else failed_result (e_customer email) (errorMsg_of entry))"

text \<open>
  What the \<^verbatim>\<open>catch\<close> of a batch records: one failure per email of the batch, in order,
  each carrying the message of the error.
\<close>

definition batch_failed :: "email list \<Rightarrow> string \<Rightarrow> send_result list" where
  "batch_failed batch msg =
     map (\<lambda>email. failed_result (e_customer email) (''Batch send failed: '' @ msg)) batch"

text \<open>
  The outcomes of one batch, by what the batch service does on call number \<open>n\<close> with the
  payloads of the batch. It throws: the batch fails with the message thrown. It answers
  with an array: the entries decide the emails one by one, and an entry beyond the end of
  the batch makes the loop over the entries throw, so the batch fails after the results of
  the entries before. It answers with an error, or with anything else: the batch fails
  with the message \<^verbatim>\<open>sendEmails\<close> throws for it.
\<close>

definition batch_outcomes :: "env \<Rightarrow> string \<Rightarrow> nat \<Rightarrow> email list \<Rightarrow> send_result list" where
  "batch_outcomes env sender n batch =
     (case batch_send env n (map (\<lambda>e. projr (batch_payload sender e)) batch) of
        Inl e \<Rightarrow> batch_failed batch (message e)
      | Inr (BatchData reply) \<Rightarrow>
          map2 entry_outcome batch reply @
          (if length batch < length reply
           then batch_failed batch ''Cannot read properties of undefined (reading 'customer')''
           else [])
      | Inr (BatchError msg json) \<Rightarrow> batch_failed batch (''Resend API error: '' @ js_or msg json)
      | Inr (BatchUnexpected ty) \<Rightarrow>
          batch_failed batch
            (''Invalid batch response format from Resend API. Expected {data: {data: Array}}, got: '' @ ty))"

text \<open>
  The progress variant. What the callback records for one email, by what the send service
  does on call number \<open>n\<close> with the payload of the email: a failure carrying the error
  thrown, or a success carrying the id of the response.
\<close>

definition progress_outcome :: "env \<Rightarrow> nat \<Rightarrow> email \<Rightarrow> send_result" where
  "progress_outcome env n email =
     (case emails_send env n (projr (progress_payload email)) of
        Inl error \<Rightarrow>
          \<lparr>r_customer = e_customer email, emailId = None, r_success = False, sentAt = None,
           r_subject = None, productMatched = None, r_error = Some (message error),
           resendResponse = None, errorDetails = Some error\<rparr>
      | Inr result \<Rightarrow>
          \<lparr>r_customer = e_customer email,
           emailId = Some (js_or (data_id result) (js_or (top_id result) ''unknown'')),
           r_success = True, sentAt = None, r_subject = subject email,
           productMatched = projr (productMatched_of email), r_error = None,
           resendResponse = Some result, errorDetails = None\<rparr>)"

text \<open>The outcomes of a list of emails, each with a call of its own, the first being call \<open>n\<close>.\<close>

fun progress_outcomes :: "env \<Rightarrow> nat \<Rightarrow> email list \<Rightarrow> send_result list" where
  "progress_outcomes env n [] = []"
| "progress_outcomes env n (email # rest) =
     progress_outcome env n email # progress_outcomes env (Suc n) rest"

text \<open>
  The two events of batch \<open>k\<close> (counted from zero) of a stream whose sending ends with
  \<open>results\<close>: the announcement of the batch, and its completion, which carries the number of
  successes and of results so far and the results of the batch.
\<close>

definition progress_events :: "send_result list \<Rightarrow> nat \<Rightarrow> event list" where
  "progress_events results k =
     [Sending_batch (k + 1) (ceil_div (length results) 3) (length (take 3 (drop (k * 3) results))),
      Batch_complete (k + 1) (length (filter r_success (take (k * 3 + 3) results)))
        (length (take (k * 3 + 3) results)) (take 3 (drop (k * 3) results))]"

section \<open>Example data\<close>

text \<open>The default \<^verbatim>\<open>filters = {}\<close>.\<close>

definition no_filters :: filters where
  "no_filters = \<lparr>f_type = None, f_status = None, f_active = None, f_search = None\<rparr>"

definition example_product :: product where
  "example_product =
     \<lparr>p_id = Some ''loan-1'', p_name = Some ''Personal Loan'', p_type = Some ''loan'',
      description = Some ''Flexible personal loan'', status = None,
      createdAt = None, updatedAt = None, deletedAt = None\<rparr>"

definition example_savings :: product where
  "example_savings =
     \<lparr>p_id = Some ''save-1'', p_name = Some ''Savings Plus'', p_type = Some ''savings'',
      description = None, status = Some ''inactive'',
      createdAt = Some 1, updatedAt = Some 1, deletedAt = None\<rparr>"

definition empty_db :: product_db where
  "empty_db = \<lparr>products = [], disk = [], console = []\<rparr>"

definition example_db :: product_db where
  "example_db =
     \<lparr>products = [(''loan-1'', example_product\<lparr>status := Some ''active''\<rparr>), (''save-1'', example_savings)],
      disk = [], console = []\<rparr>"

definition alice :: customer where
  "alice = \<lparr>c_id = Some ''c-1'', first_name = Some ''Alice'', last_name = Some ''Ng'',
             c_email = Some ''alice@example.com''\<rparr>"

definition bob :: customer where
  "bob = \<lparr>c_id = Some ''c-2'', first_name = Some ''Bob'', last_name = Some ''Roy'',
           c_email = Some ''bob@example.com''\<rparr>"

definition carol :: customer where
  "carol = \<lparr>c_id = Some ''c-3'', first_name = Some ''Carol'', last_name = Some ''Diaz'',
             c_email = None\<rparr>"

definition example_recommendation :: recommendation where
  "example_recommendation =
     \<lparr>recommendedProduct =
        Some \<lparr>productId = Some ''loan-1'', productName = Some ''Personal Loan'',
              matchReason = Some ''Fits the profile''\<rparr>,
      emailSubject = Some ''An offer for you'',
      personalizationInsights =
        Some \<lparr>primaryBenefit = Some ''Low rate'', secondaryBenefits = Some [''No fees'']\<rparr>,
      offerCustomization = Some \<lparr>specialOffer = None\<rparr>\<rparr>"

definition matched :: "customer \<Rightarrow> match" where
  "matched c = \<lparr>m_customer = c, m_success = True, m_error = None,
                m_recommendation = Some example_recommendation, matchedAt = Some 0\<rparr>"

definition unmatched :: "customer \<Rightarrow> string \<Rightarrow> match" where
  "unmatched c err = \<lparr>m_customer = c, m_success = False, m_error = Some err,
                      m_recommendation = None, matchedAt = None\<rparr>"

definition example_env :: env where
  "example_env =
     \<lparr>chat = (\<lambda>n req. if n = 1 then Inl (Error ''rate limit'') else Inr (Content ''{}'')),
      json_recommendation = (\<lambda>s. Inr (Some example_recommendation)),
      json_email_data = (\<lambda>s. Inr (Some \<lparr>ed_subject = Some ''Just for you'',
                                            plainTextContent = Some ''Hello'',
                                            ed_nudgingTechniques = None,
                                            personalizations = None\<rparr>)),
      batch_send = (\<lambda>n ps. Inr (BatchData (map (\<lambda>p. Some \<lparr>er_id = Some ''msg'', er_error = None,
                                                               er_message = None\<rparr>) ps))),
      emails_send = (\<lambda>n p. if n = 1 then Inl (Error ''insufficient balance'')
                            else Inr \<lparr>data_id = Some ''msg'', top_id = None\<rparr>),
      generateEmail = (\<lambda>c pp. Inr ''<html>''),
      clock = (\<lambda>n. 1000 + n),
      render_html = (\<lambda>text c p code. text),
      clients_ok = True\<rparr>"

text \<open>A batch service that answers every batch with an empty array.\<close>

definition silent_env :: env where
  "silent_env = example_env\<lparr>batch_send := (\<lambda>n ps. Inr (BatchData []))\<rparr>"

definition fresh_world :: world where
  "fresh_world = \<lparr>ai_calls = [], batch_calls = [], send_calls = [], clock_reads = 0,
                   delays = 0, batch_log = []\<rparr>"

definition default_options :: options where
  "default_options = \<lparr>fromName = None, batchSize = None\<rparr>"

text \<open>A generated email as the fallback branch builds it.\<close>

definition example_email :: "customer \<Rightarrow> email" where
  "example_email c =
     \<lparr>e_customer = c, e_match = Some (matched c), subject = Some ''An offer for you'',
      content = Some ''<html>'',
      personalizedProduct =
        Some \<lparr>pp_id = Some ''loan-1'', pp_name = Some ''Personal Loan'', details = ''Dear customer'',
              expiryDate = 2592001000, offerCode = ''CBAN1000'',
              campaign = ''ai_matched_offers_2025''\<rparr>,
      nudgingTechniques = None, nudgeOptimized = Some False, e_success = True,
      fallbackMode = Some True, e_error = None\<rparr>"

text \<open>A batch service whose second call fails.\<close>

definition flaky_env :: env where
  "flaky_env =
     example_env\<lparr>batch_send :=
       (\<lambda>n ps. if n = 1 then Inl (Error ''insufficient balance'')
                else Inr (BatchData (map (\<lambda>p. Some \<lparr>er_id = Some ''msg'', er_error = None,
                                                      er_message = None\<rparr>) ps)))\<rparr>"

definition five_emails :: "email list" where
  "five_emails = map example_email [alice, bob, carol, alice, bob]"

section \<open>Product Store: properties\<close>

lemma filter_throw_Inr:
  "filter_throw P xs = Inr ys \<Longrightarrow> ys = filter (\<lambda>x. P x = Inr True) xs"
  by (induction xs arbitrary: ys) (auto split: sum.splits if_splits)

lemma getProducts_subset:
  "getProducts fs db = Inr xs \<Longrightarrow> set xs \<subseteq> snd ` set (products db)"
  by (auto simp: getProducts_def Let_def dest!: filter_throw_Inr split: if_splits)

lemma getProducts_active:
  "f_active fs \<noteq> None \<Longrightarrow> getProducts fs db = Inr xs \<Longrightarrow> q \<in> set xs \<Longrightarrow> status q = Some ''active''"
  by (auto simp: getProducts_def Let_def dest!: filter_throw_Inr split: if_splits)

lemma getProducts_active_value:
  "getProducts (fs\<lparr>f_active := Some v\<rparr>) db = getProducts (fs\<lparr>f_active := Some w\<rparr>) db"
  by (simp add: getProducts_def Let_def)

lemma getProducts_active_narrows:
  assumes "getProducts (fs\<lparr>f_active := Some v\<rparr>) db = Inr xs"
      and "getProducts (fs\<lparr>f_active := None\<rparr>) db = Inr ys"
  shows "xs = filter (\<lambda>p. status p = Some ''active'') ys"
  using assms
  by (auto simp: getProducts_def Let_def conj_commute dest!: filter_throw_Inr split: if_splits
           intro: filter_cong)

lemma set_update_subset:
  "distinct (map fst al) \<Longrightarrow> (k', q) \<in> set (AList.update k v al) \<Longrightarrow>
     (k', q) = (k, v) \<or> ((k', q) \<in> set al \<and> k' \<noteq> k)"
proof (induction al)
  case Nil
  then show ?case by simp
next
  case (Cons e al)
  show ?case
  proof (cases "fst e = k")
    case True
    with Cons.prems have "(k', q) = (k, v) \<or> (k', q) \<in> set al" by simp
    moreover from Cons.prems(1) True have "k \<notin> fst ` set al" by simp
    ultimately show ?thesis by force
  next
    case False
    with Cons.prems have "(k', q) = e \<or> (k', q) \<in> set (AList.update k v al)" by simp
    then show ?thesis
    proof
      assume "(k', q) = e"
      with False show ?thesis by auto
    next
      assume "(k', q) \<in> set (AList.update k v al)"
      with Cons.IH Cons.prems(1) show ?thesis by auto
    qed
  qed
qed

lemma update_mem: "(k, v) \<in> set (AList.update k v al)"
  by (induction al) auto

lemma keyed_by_idD:
  "keyed_by_id db \<Longrightarrow> (k, q) \<in> set (products db) \<Longrightarrow> p_id q = Some k"
  by (auto simp: keyed_by_id_def list_all_iff)

lemma saveDatabase_products [simp]: "products (snd (saveDatabase wr db)) = products db"
  by (simp add: saveDatabase_def console_error_def split: option.splits)

lemma products_console_error [simp]: "products (console_error l db) = products db"
  by (simp add: console_error_def)

lemma addProduct_products:
  "products (snd (addProduct t1 t2 wr P db)) =
     (if truthy (p_id P) \<and> truthy (p_name P) \<and> truthy (p_type P) \<and> \<not> has (products db) (the (p_id P))
      then AList.update (the (p_id P))
             (P\<lparr>createdAt := Some t1, updatedAt := Some t2,
                status := Some (js_or (status P) ''active'')\<rparr>) (products db)
      else products db)"
  by (auto simp: addProduct_def addProduct_try_def Let_def saveDatabase_def console_error_def
           split: prod.splits sum.splits option.splits)

lemma deleteProduct_products:
  "products (snd (deleteProduct t1 t2 wr k hard db)) =
     (case map_of (products db) k of
        None \<Rightarrow> products db
      | Some p \<Rightarrow> if hard then AList.delete k (products db)
                  else AList.update k (p\<lparr>status := Some ''inactive'', deletedAt := Some t1,
                                          updatedAt := Some t2\<rparr>) (products db))"
  by (auto simp: deleteProduct_def deleteProduct_try_def Let_def saveDatabase_def console_error_def
           split: prod.splits sum.splits option.splits)

lemma getProducts_status_only:
  "getProducts (no_filters\<lparr>f_status := Some ''inactive''\<rparr>) db =
     Inr (filter (\<lambda>p. status p = Some ''inactive'') (map snd (products db)))"
  by (simp add: getProducts_def no_filters_def truthy_def)

lemma getProducts_active_only:
  "getProducts (no_filters\<lparr>f_active := Some v\<rparr>) db =
     Inr (filter (\<lambda>p. status p = Some ''active'') (map snd (products db)))"
  by (simp add: getProducts_def no_filters_def truthy_def)

lemma addProduct_invalid:
  "\<not> truthy (p_id P) \<or> \<not> truthy (p_name P) \<or> \<not> truthy (p_type P) \<Longrightarrow>
     addProduct t1 t2 wr P db =
       (Inr False, console_error ''Error adding product: Product must have id, name, and type'' db)"
  by (simp add: addProduct_def addProduct_try_def)

lemma addProduct_duplicate:
  "truthy (p_id P) \<Longrightarrow> truthy (p_name P) \<Longrightarrow> truthy (p_type P) \<Longrightarrow> p_id P = Some k \<Longrightarrow>
   getProduct k db \<noteq> None \<Longrightarrow>
     addProduct t1 t2 wr P db =
       (Inr False, console_error (''Error adding product: Product with ID '' @ k @ '' already exists'') db)"
  by (simp add: addProduct_def addProduct_try_def has_def getProduct_def)

lemma updateProduct_absent:
  "getProduct k db = None \<Longrightarrow>
     updateProduct t wr k updates db =
       (Inr False, console_error (''Error updating product: Product with ID '' @ k @ '' not found'') db)"
  by (simp add: updateProduct_def updateProduct_try_def getProduct_def)

lemma addProduct_returns: "\<not> isl (fst (addProduct t1 t2 wr P db))"
  by (simp add: addProduct_def split: prod.splits sum.splits)

lemma updateProduct_returns: "\<not> isl (fst (updateProduct t wr k updates db))"
  by (simp add: updateProduct_def split: prod.splits sum.splits)

lemma deleteProduct_returns: "\<not> isl (fst (deleteProduct t1 t2 wr k hard db))"
  by (simp add: deleteProduct_def split: prod.splits sum.splits)

text \<open>
  C6. For a valid product \<open>P\<close> (truthy id, name and type) whose id \<open>k\<close> is not in the store,
  \<open>addProduct P\<close> followed by \<open>getProduct k\<close> returns \<open>P\<close> with the two timestamps set and
  the status defaulted to \<open>active\<close> when \<open>P\<close> carries none; the call returns \<open>true\<close> when
  the file write succeeds. A second \<open>addProduct\<close> of any product with the same id returns
  \<open>false\<close> and leaves the stored records as they were.
\<close>

theorem addProduct_then_getProduct:
  assumes "truthy (p_id P)" and "truthy (p_name P)" and "truthy (p_type P)"
      and "p_id P = Some k" and "getProduct k db = None" and "p_id Q = Some k"
  shows "getProduct k (snd (addProduct t1 t2 wr P db)) =
           Some (P\<lparr>createdAt := Some t1, updatedAt := Some t2,
                   status := Some (js_or (status P) ''active'')\<rparr>) \<and>
         (\<not> truthy (status P) \<longrightarrow> js_or (status P) ''active'' = ''active'') \<and>
         (wr = None \<longrightarrow> fst (addProduct t1 t2 wr P db) = Inr True) \<and>
         fst (addProduct t3 t4 wr' Q (snd (addProduct t1 t2 wr P db))) = Inr False \<and>
         products (snd (addProduct t3 t4 wr' Q (snd (addProduct t1 t2 wr P db)))) =
           products (snd (addProduct t1 t2 wr P db))"
proof -
  let ?P' = "P\<lparr>createdAt := Some t1, updatedAt := Some t2,
                status := Some (js_or (status P) ''active'')\<rparr>"
  let ?db1 = "snd (addProduct t1 t2 wr P db)"
  have fresh: "\<not> has (products db) k"
    using assms(5) by (simp add: has_def getProduct_def)
  have prods: "products ?db1 = AList.update k ?P' (products db)"
    using assms(1-4) fresh by (simp add: addProduct_products)
  have get1: "getProduct k ?db1 = Some ?P'"
    by (simp add: getProduct_def prods AList.update_conv')
  have dflt: "\<not> truthy (status P) \<longrightarrow> js_or (status P) ''active'' = ''active''"
    by (auto simp: truthy_def js_or_def split: option.splits)
  have ok: "wr = None \<longrightarrow> fst (addProduct t1 t2 wr P db) = Inr True"
    using assms(1-4) fresh
    by (simp add: addProduct_def addProduct_try_def Let_def saveDatabase_def)
  have dup: "has (products ?db1) k"
    using get1 by (simp add: has_def getProduct_def)
  have fail: "fst (addProduct t3 t4 wr' Q ?db1) = Inr False"
    using dup assms(6) by (simp add: addProduct_def addProduct_try_def Let_def)
  have same: "products (snd (addProduct t3 t4 wr' Q ?db1)) = products ?db1"
    using dup assms(6) by (simp add: addProduct_products)
  from get1 dflt ok fail same show ?thesis by blast
qed

theorem addProduct_then_getProduct_witness:
  "truthy (p_id example_product) \<and> truthy (p_name example_product) \<and> truthy (p_type example_product) \<and>
   getProduct ''loan-1'' empty_db = None \<and>
   getProduct ''loan-1'' (snd (addProduct 10 11 None example_product empty_db)) =
     Some (example_product\<lparr>createdAt := Some 10, updatedAt := Some 11, status := Some ''active''\<rparr>) \<and>
   fst (addProduct 20 21 None example_product (snd (addProduct 10 11 None example_product empty_db))) = Inr False"
proof -
  have h1: "truthy (p_id example_product)" and h2: "truthy (p_name example_product)"
    and h3: "truthy (p_type example_product)" and h4: "p_id example_product = Some ''loan-1''"
    by (simp_all add: example_product_def truthy_def)
  have h5: "getProduct ''loan-1'' empty_db = None"
    by (simp add: getProduct_def empty_db_def)
  have d: "js_or (status example_product) ''active'' = ''active''"
    by (simp add: js_or_def example_product_def)
  show ?thesis
    using addProduct_then_getProduct [OF h1 h2 h3 h4 h5 h4, of 10 11 None 20 21 None] h1 h2 h3 h5
    by (simp add: d)
qed

text \<open>
  C7. In a store whose records sit under their own ids, after a soft delete of an existing
  id \<open>k\<close> the record (now inactive, with its deletion and update timestamps) is listed by
  \<open>getProducts({status: 'inactive'})\<close> and not by \<open>getProducts({active: true})\<close>, which
  lists no record with id \<open>k\<close>; after a hard delete no \<open>getProducts\<close> call, whatever its
  filters, returns the record or any record with id \<open>k\<close>.
\<close>

theorem deleteProduct_listings:
  assumes "keyed_by_id db" and "getProduct k db = Some p"
  shows "(let db' = snd (deleteProduct t1 t2 wr k False db);
              p' = p\<lparr>status := Some ''inactive'', deletedAt := Some t1, updatedAt := Some t2\<rparr>
          in getProduct k db' = Some p' \<and>
             (\<exists>xs. getProducts (no_filters\<lparr>f_status := Some ''inactive''\<rparr>) db' = Inr xs \<and> p' \<in> set xs) \<and>
             (\<exists>ys. getProducts (no_filters\<lparr>f_active := Some (JBool True)\<rparr>) db' = Inr ys \<and>
                   p' \<notin> set ys \<and> (\<forall>q \<in> set ys. p_id q \<noteq> Some k))) \<and>
         (\<forall>fs xs. getProducts fs (snd (deleteProduct t3 t4 wr' k True db)) = Inr xs \<longrightarrow>
                   p \<notin> set xs \<and> (\<forall>q \<in> set xs. p_id q \<noteq> Some k))"
proof -
  let ?p' = "p\<lparr>status := Some ''inactive'', deletedAt := Some t1, updatedAt := Some t2\<rparr>"
  let ?soft = "snd (deleteProduct t1 t2 wr k False db)"
  let ?hard = "snd (deleteProduct t3 t4 wr' k True db)"
  from assms(2) have look: "map_of (products db) k = Some p"
    by (simp add: getProduct_def)
  from assms(1) have dist: "distinct (map fst (products db))"
    by (simp add: keyed_by_id_def)
  have pid: "p_id p = Some k"
    using keyed_by_idD [OF assms(1)] map_of_SomeD [OF look] by blast
  have soft: "products ?soft = AList.update k ?p' (products db)"
    by (simp add: deleteProduct_products look)
  have hard: "products ?hard = AList.delete k (products db)"
    by (simp add: deleteProduct_products look)
  have get: "getProduct k ?soft = Some ?p'"
    by (simp add: getProduct_def soft AList.update_conv')
  have mem: "?p' \<in> snd ` set (products ?soft)"
    unfolding soft using update_mem [of k ?p' "products db"] by force
  have only: "p_id q \<noteq> Some k" if "q \<in> snd ` set (products ?soft)" and "status q = Some ''active''" for q
  proof -
    from that(1) obtain k' where "(k', q) \<in> set (AList.update k ?p' (products db))"
      unfolding soft by auto
    with set_update_subset [OF dist] have "(k', q) = (k, ?p') \<or> ((k', q) \<in> set (products db) \<and> k' \<noteq> k)"
      by blast
    then show ?thesis
    proof
      assume "(k', q) = (k, ?p')"
      with that(2) show ?thesis by simp
    next
      assume "(k', q) \<in> set (products db) \<and> k' \<noteq> k"
      with keyed_by_idD [OF assms(1)] show ?thesis by auto
    qed
  qed
  have inactive: "\<exists>xs. getProducts (no_filters\<lparr>f_status := Some ''inactive''\<rparr>) ?soft = Inr xs \<and> ?p' \<in> set xs"
    using mem by (auto simp: getProducts_status_only)
  have active: "\<exists>ys. getProducts (no_filters\<lparr>f_active := Some (JBool True)\<rparr>) ?soft = Inr ys \<and>
                   ?p' \<notin> set ys \<and> (\<forall>q \<in> set ys. p_id q \<noteq> Some k)"
    using only by (auto simp: getProducts_active_only)
  have gone: "p_id q \<noteq> Some k" if "getProducts fs ?hard = Inr xs" and "q \<in> set xs" for fs xs q
  proof -
    from getProducts_subset [OF that(1)] that(2) obtain k' where in_del: "(k', q) \<in> set (AList.delete k (products db))"
      unfolding hard by auto
    then have "(k', q) \<in> set (products db)" and "k' \<noteq> k"
      by (auto simp: AList.delete_eq)
    with keyed_by_idD [OF assms(1)] show ?thesis by auto
  qed
  have hard_all: "\<forall>fs xs. getProducts fs ?hard = Inr xs \<longrightarrow> p \<notin> set xs \<and> (\<forall>q \<in> set xs. p_id q \<noteq> Some k)"
    using gone pid by blast
  from get inactive active hard_all show ?thesis
    by (simp add: Let_def)
qed

theorem deleteProduct_listings_witness:
  "keyed_by_id example_db \<and>
   getProduct ''loan-1'' example_db = Some (example_product\<lparr>status := Some ''active''\<rparr>) \<and>
   getProducts (no_filters\<lparr>f_status := Some ''inactive''\<rparr>) (snd (deleteProduct 5 6 None ''loan-1'' False example_db)) =
     Inr [example_product\<lparr>status := Some ''inactive'', deletedAt := Some 5, updatedAt := Some 6\<rparr>, example_savings] \<and>
   getProducts (no_filters\<lparr>f_active := Some (JBool True)\<rparr>) (snd (deleteProduct 5 6 None ''loan-1'' False example_db)) = Inr [] \<and>
   getProducts no_filters (snd (deleteProduct 5 6 None ''loan-1'' True example_db)) = Inr [example_savings]"
proof -
  have h1: "keyed_by_id example_db"
    by (simp add: keyed_by_id_def example_db_def example_product_def example_savings_def)
  have h2: "getProduct ''loan-1'' example_db = Some (example_product\<lparr>status := Some ''active''\<rparr>)"
    by (simp add: getProduct_def example_db_def)
  have e1: "products (snd (deleteProduct 5 6 None ''loan-1'' False example_db)) =
              [(''loan-1'', example_product\<lparr>status := Some ''inactive'', deletedAt := Some 5, updatedAt := Some 6\<rparr>),
               (''save-1'', example_savings)]"
    by (simp add: deleteProduct_products example_db_def)
  have e2: "products (snd (deleteProduct 5 6 None ''loan-1'' True example_db)) = [(''save-1'', example_savings)]"
    by (simp add: deleteProduct_products example_db_def AList.delete_eq)
  have s1: "status example_savings = Some ''inactive''"
    by (simp add: example_savings_def)
  show ?thesis
    using deleteProduct_listings [OF h1 h2, of 5 6 None 5 6 None] h1 h2
    by (simp add: getProducts_status_only getProducts_active_only e1 e2 s1 getProducts_def
                  no_filters_def truthy_def)
qed

text \<open>
  C8, as the code has it. \<open>addProduct\<close> and \<open>updateProduct\<close> never raise: their \<open>catch\<close>
  turns every failure into the return value \<open>false\<close> and a line on the error console.
  \<open>addProduct\<close> returns \<open>false\<close> with the store unchanged when id, name or type is missing
  and when the id is already present; \<open>updateProduct\<close> returns \<open>false\<close> with the store
  unchanged when the id is absent. The kind of failure is only visible in the logged message.
\<close>

theorem store_failures_return_false:
  "(\<not> truthy (p_id P) \<or> \<not> truthy (p_name P) \<or> \<not> truthy (p_type P) \<longrightarrow>
      addProduct t1 t2 wr P db =
        (Inr False, console_error ''Error adding product: Product must have id, name, and type'' db)) \<and>
   (truthy (p_id P) \<and> truthy (p_name P) \<and> truthy (p_type P) \<and> p_id P = Some k \<and>
    getProduct k db \<noteq> None \<longrightarrow>
      addProduct t1 t2 wr P db =
        (Inr False, console_error (''Error adding product: Product with ID '' @ k @ '' already exists'') db)) \<and>
   (getProduct k' db = None \<longrightarrow>
      updateProduct t wr k' updates db =
        (Inr False, console_error (''Error updating product: Product with ID '' @ k' @ '' not found'') db)) \<and>
   \<not> isl (fst (addProduct t1 t2 wr P db)) \<and>
   \<not> isl (fst (updateProduct t wr k' updates db))"
  using addProduct_invalid [of P t1 t2 wr db] addProduct_duplicate [of P k db t1 t2 wr]
        updateProduct_absent [of k' db t wr updates] addProduct_returns [of t1 t2 wr P db]
        updateProduct_returns [of t wr k' updates db]
  by blast

theorem store_failures_return_false_witness:
  "addProduct 1 2 None (example_product\<lparr>p_name := None\<rparr>) empty_db =
     (Inr False, empty_db\<lparr>console := [''Error adding product: Product must have id, name, and type'']\<rparr>) \<and>
   addProduct 1 2 None example_product example_db =
     (Inr False, example_db\<lparr>console := [''Error adding product: Product with ID loan-1 already exists'']\<rparr>) \<and>
   updateProduct 3 None ''nope'' [Set_name (Some ''x'')] example_db =
     (Inr False, example_db\<lparr>console := [''Error updating product: Product with ID nope not found'']\<rparr>)"
proof -
  have a: "\<not> truthy (p_name (example_product\<lparr>p_name := None\<rparr>))"
    by (simp add: truthy_def)
  have b: "truthy (p_id example_product) \<and> truthy (p_name example_product) \<and> truthy (p_type example_product) \<and>
           p_id example_product = Some ''loan-1'' \<and> getProduct ''loan-1'' example_db \<noteq> None"
    by (simp add: example_product_def truthy_def getProduct_def example_db_def)
  have c: "getProduct ''nope'' example_db = None"
    by (simp add: getProduct_def example_db_def)
  have r1: "addProduct 1 2 None (example_product\<lparr>p_name := None\<rparr>) empty_db =
     (Inr False, console_error ''Error adding product: Product must have id, name, and type'' empty_db)"
    using store_failures_return_false [of "example_product\<lparr>p_name := None\<rparr>" 1 2 None empty_db] a
    by blast
  have r2: "addProduct 1 2 None example_product example_db =
     (Inr False, console_error (''Error adding product: Product with ID '' @ ''loan-1'' @ '' already exists'') example_db)"
    using store_failures_return_false [of example_product 1 2 None example_db "''loan-1''"] b
    by blast
  have r3: "updateProduct 3 None ''nope'' [Set_name (Some ''x'')] example_db =
     (Inr False, console_error (''Error updating product: Product with ID '' @ ''nope'' @ '' not found'') example_db)"
    using store_failures_return_false [where db = example_db and k' = "''nope''" and t = 3 and wr = None
                                             and updates = "[Set_name (Some ''x'')]"] c
    by blast
  show ?thesis
    unfolding r1 r2 r3 by (simp add: console_error_def empty_db_def example_db_def)
qed

text \<open>
  C8, as stated, fails: the three failing calls return \<open>false\<close> to the caller instead of
  raising an error.
\<close>

theorem store_failures_raised_counterexample:
  "fst (addProduct 1 2 None (example_product\<lparr>p_name := None\<rparr>) empty_db) = Inr False \<and>
   fst (addProduct 1 2 None example_product example_db) = Inr False \<and>
   fst (updateProduct 3 None ''nope'' [Set_name (Some ''x'')] example_db) = Inr False"
  by (simp add: addProduct_def addProduct_try_def updateProduct_def updateProduct_try_def
                truthy_def has_def example_product_def example_db_def Let_def)

text \<open>
  C10. When the key \<open>active\<close> of the filters is defined, with any value \<open>v\<close>, every product
  that \<open>getProducts\<close> returns has status \<open>active\<close>; the result is the same for every other
  value \<open>w\<close> of the key (so none selects inactive products), and it is the result of the
  other filters alone narrowed to the active products.
\<close>

theorem getProducts_active_key:
  assumes "f_active fs = Some v" and "getProducts fs db = Inr xs"
  shows "(\<forall>q \<in> set xs. status q = Some ''active'') \<and>
         getProducts (fs\<lparr>f_active := Some w\<rparr>) db = Inr xs \<and>
         (\<forall>ys. getProducts (fs\<lparr>f_active := None\<rparr>) db = Inr ys \<longrightarrow>
               xs = filter (\<lambda>p. status p = Some ''active'') ys)"
proof -
  from assms(1) have fs: "fs = fs\<lparr>f_active := Some v\<rparr>" by simp
  have 1: "\<forall>q \<in> set xs. status q = Some ''active''"
    using getProducts_active [OF _ assms(2)] assms(1) by simp
  have 2: "getProducts (fs\<lparr>f_active := Some w\<rparr>) db = Inr xs"
    using getProducts_active_value [where fs = fs and v = v and w = w and db = db] fs assms(2) by metis
  have 3: "\<forall>ys. getProducts (fs\<lparr>f_active := None\<rparr>) db = Inr ys \<longrightarrow>
               xs = filter (\<lambda>p. status p = Some ''active'') ys"
    using getProducts_active_narrows [where fs = fs and v = v and db = db and xs = xs] fs assms(2) by metis
  from 1 2 3 show ?thesis by blast
qed

theorem getProducts_active_key_witness:
  "f_active (no_filters\<lparr>f_active := Some (JBool False)\<rparr>) = Some (JBool False) \<and>
   getProducts (no_filters\<lparr>f_active := Some (JBool False)\<rparr>) example_db =
     Inr [example_product\<lparr>status := Some ''active''\<rparr>] \<and>
   status (example_product\<lparr>status := Some ''active''\<rparr>) = Some ''active'' \<and>
   getProducts (no_filters\<lparr>f_active := Some JNull\<rparr>) example_db =
     Inr [example_product\<lparr>status := Some ''active''\<rparr>]"
proof -
  have h1: "f_active (no_filters\<lparr>f_active := Some (JBool False)\<rparr>) = Some (JBool False)"
    by simp
  have h2: "getProducts (no_filters\<lparr>f_active := Some (JBool False)\<rparr>) example_db =
              Inr [example_product\<lparr>status := Some ''active''\<rparr>]"
    by (simp add: getProducts_active_only example_db_def example_savings_def)
  show ?thesis
    using getProducts_active_key [OF h1 h2, where w = JNull] h2
    by simp
qed

section \<open>Matcher: properties\<close>

lemma match_iteration_calls:
  "length (ai_calls (snd (match_iteration env c ps w))) = Suc (length (ai_calls w))"
  by (simp add: match_iteration_def matchSingleCustomer_def call_chat_def read_clock_def delay_def
           split: sum.splits option.splits prod.splits)

lemma match_iteration_outcome:
  "fst (match_iteration env c ps w) =
     (case match_outcome env ps (length (ai_calls w)) c of
        Inl e \<Rightarrow> \<lparr>m_customer = c, m_success = False,
                   m_error = Some (''AI matching failed: '' @ message e),
                   m_recommendation = None, matchedAt = None\<rparr>
      | Inr r \<Rightarrow> \<lparr>m_customer = c, m_success = True, m_error = None, m_recommendation = r,
                   matchedAt = Some (int (clock env (clock_reads w)))\<rparr>)"
  by (simp add: match_iteration_def matchSingleCustomer_def call_chat_def read_clock_def
                match_outcome_def
           split: sum.splits option.splits prod.splits)

lemma match_loop_acc:
  "match_loop env cs ps acc w =
     (acc @ fst (match_loop env cs ps [] w), snd (match_loop env cs ps [] w))"
proof (induction cs arbitrary: acc w)
  case Nil
  then show ?case by simp
next
  case (Cons c cs)
  obtain m w1 where it: "match_iteration env c ps w = (m, w1)"
    by (cases "match_iteration env c ps w")
  show ?case
    using Cons.IH [of "acc @ [m]" w1] Cons.IH [of "[m]" w1]
    by (simp add: it)
qed

lemma match_loop_Cons:
  "fst (match_loop env (c # cs) ps [] w) =
     fst (match_iteration env c ps w) #
     fst (match_loop env cs ps [] (snd (match_iteration env c ps w)))"
proof -
  obtain m w1 where it: "match_iteration env c ps w = (m, w1)"
    by (cases "match_iteration env c ps w")
  show ?thesis
    using match_loop_acc [of env cs ps "[m]" w1] by (simp add: it)
qed

lemma match_loop_length: "length (fst (match_loop env cs ps [] w)) = length cs"
  by (induction cs arbitrary: w) (simp_all add: match_loop_Cons del: match_loop.simps(2))

lemma match_iteration_customer: "m_customer (fst (match_iteration env c ps w)) = c"
  by (simp add: match_iteration_outcome split: sum.splits)

lemma match_loop_customers: "map m_customer (fst (match_loop env cs ps [] w)) = cs"
  by (induction cs arbitrary: w)
     (simp_all add: match_loop_Cons match_iteration_customer del: match_loop.simps(2))

lemma match_iteration_recorded:
  "recorded c (match_outcome env ps (length (ai_calls w)) c) (fst (match_iteration env c ps w))"
  by (simp add: recorded_def match_iteration_outcome split: sum.splits)

lemma match_loop_nth:
  "i < length cs \<Longrightarrow>
     recorded (cs ! i) (match_outcome env ps (length (ai_calls w) + i) (cs ! i))
       (fst (match_loop env cs ps [] w) ! i)"
proof (induction cs arbitrary: w i)
  case Nil
  then show ?case by simp
next
  case (Cons c cs)
  show ?case
  proof (cases i)
    case 0
    then show ?thesis
      using match_iteration_recorded [of c env ps w]
      by (simp add: match_loop_Cons del: match_loop.simps(2))
  next
    case (Suc j)
    with Cons.prems have "j < length cs" by simp
    from Cons.IH [OF this, of "snd (match_iteration env c ps w)"] Suc
    show ?thesis
      by (simp add: match_loop_Cons match_iteration_calls del: match_loop.simps(2))
  qed
qed

text \<open>
  C9. \<open>matchCustomersToProducts\<close> returns one match per customer, in the order of the
  customers; the match at position \<open>i\<close> is the one recorded for the outcome of the \<open>i\<close>-th
  request: when that request or its parsing fails, the failed entry (the customer, success
  false, the message) stands at position \<open>i\<close>, whatever the other requests did, and the
  remaining customers are still matched.
\<close>

theorem matchCustomersToProducts_records_each:
  "length (fst (matchCustomersToProducts env customers ps w)) = length customers \<and>
   map m_customer (fst (matchCustomersToProducts env customers ps w)) = customers \<and>
   (\<forall>i < length customers.
      recorded (customers ! i)
        (match_outcome env ps (length (ai_calls w) + i) (customers ! i))
        (fst (matchCustomersToProducts env customers ps w) ! i))"
  by (simp add: matchCustomersToProducts_def match_loop_length match_loop_customers match_loop_nth)

theorem matchCustomersToProducts_records_each_witness:
  "length (fst (matchCustomersToProducts example_env [alice, bob, carol] [] fresh_world)) = 3 \<and>
   fst (matchCustomersToProducts example_env [alice, bob, carol] [] fresh_world) ! 1 =
     unmatched bob ''AI matching failed: rate limit''"
proof -
  have o: "match_outcome example_env [] (length (ai_calls fresh_world) + 1) ([alice, bob, carol] ! 1) =
             Inl (Error ''rate limit'')"
    by (simp add: match_outcome_def example_env_def fresh_world_def)
  note t = matchCustomersToProducts_records_each [of example_env "[alice, bob, carol]" "[]" fresh_world]
  from t have len: "length (fst (matchCustomersToProducts example_env [alice, bob, carol] [] fresh_world)) =
               length [alice, bob, carol]"
    by blast
  from t [THEN conjunct2, THEN conjunct2, rule_format, of 1]
  have rec: "recorded ([alice, bob, carol] ! 1)
        (match_outcome example_env [] (length (ai_calls fresh_world) + 1) ([alice, bob, carol] ! 1))
        (fst (matchCustomersToProducts example_env [alice, bob, carol] [] fresh_world) ! 1)"
    by simp
  from rec show ?thesis
    unfolding o using len by (simp add: recorded_def unmatched_def)
qed

section \<open>Bulk Email Dispatcher: properties of the generation\<close>

lemma generateOfferCode_Inr:
  "generateOfferCode env c w = (Inr code, w') \<Longrightarrow> first_name c \<noteq> None \<and> last_name c \<noteq> None"
  by (auto simp: generateOfferCode_def split: option.splits)

lemma personalizedProduct_of_Inr:
  assumes "personalizedProduct_of env m w = (Inr pp, w')"
  shows "first_name (m_customer m) \<noteq> None \<and> last_name (m_customer m) \<noteq> None \<and>
         (\<exists>r rp. m_recommendation m = Some r \<and> recommendedProduct r = Some rp)"
proof -
  from assms obtain r rp where r: "m_recommendation m = Some r" and rp: "recommendedProduct r = Some rp"
    by (auto simp: personalizedProduct_of_def split: option.splits)
  from assms r rp obtain code w1 w2 where "generateOfferCode env (m_customer m) w1 = (Inr code, w2)"
    by (auto simp: personalizedProduct_of_def split: option.splits sum.splits prod.splits)
  from generateOfferCode_Inr [OF this] r rp show ?thesis by blast
qed

lemma productMatched_of_match:
  "e_match e = Some m \<Longrightarrow> m_recommendation m = Some r \<Longrightarrow> recommendedProduct r = Some rp \<Longrightarrow>
     \<not> isl (productMatched_of e)"
  by (simp add: productMatched_of_def)

lemma nudge_branch_Inr:
  assumes "nudge_branch env m w = (Inr e, w')"
  shows "e_customer e = m_customer m \<and> e_success e \<and> sendable e"
  using assms
  by (auto simp: nudge_branch_def sendable_def productMatched_of_def
           split: sum.splits prod.splits dest!: personalizedProduct_of_Inr)

lemma fallback_branch_Inr:
  assumes "fallback_branch env m w = (Inr e, w')"
  shows "e_customer e = m_customer m \<and> e_success e \<and> sendable e"
  using assms
  by (auto simp: fallback_branch_def sendable_def productMatched_of_def
           split: sum.splits prod.splits dest!: personalizedProduct_of_Inr)

lemma generate_email_failed_match:
  "\<not> m_success m \<Longrightarrow> generate_email env m w = (failed_email (m_customer m) (m_error m), w)"
  by (simp add: generate_email_def)

lemma failed_email_simps [simp]:
  "e_customer (failed_email c err) = c"
  "e_success (failed_email c err) = False"
  "e_error (failed_email c err) = err"
  by (simp_all add: failed_email_def)

lemma generate_email_cases:
  "(\<exists>err. fst (generate_email env m w) = failed_email (m_customer m) err) \<or>
   (e_customer (fst (generate_email env m w)) = m_customer m \<and>
    e_success (fst (generate_email env m w)) \<and> sendable (fst (generate_email env m w)))"
proof (cases "m_success m")
  case False
  then show ?thesis by (auto simp: generate_email_failed_match)
next
  case True
  obtain r1 w1 where n: "nudge_branch env m w = (r1, w1)" by (cases "nudge_branch env m w")
  show ?thesis
  proof (cases r1)
    case (Inr e)
    with n True nudge_branch_Inr [of env m w e w1] show ?thesis
      by (simp add: generate_email_def)
  next
    case (Inl err)
    obtain r2 w2 where f: "fallback_branch env m w1 = (r2, w2)" by (cases "fallback_branch env m w1")
    show ?thesis
    proof (cases r2)
      case (Inr e)
      with n f True Inl fallback_branch_Inr [of env m w1 e w2] show ?thesis
        by (simp add: generate_email_def)
    next
      case (Inl err2)
      with n f True \<open>r1 = Inl err\<close> show ?thesis
        by (auto simp: generate_email_def)
    qed
  qed
qed

lemma generate_email_customer: "e_customer (fst (generate_email env m w)) = m_customer m"
  using generate_email_cases [of env m w] by auto

lemma generate_email_sendable:
  "e_success (fst (generate_email env m w)) \<Longrightarrow> sendable (fst (generate_email env m w))"
  using generate_email_cases [of env m w] by auto

lemma generate_email_success_match:
  "e_success (fst (generate_email env m w)) \<Longrightarrow> m_success m"
  by (rule ccontr) (simp add: generate_email_failed_match)

lemma generate_loop_acc:
  "generate_loop env ms acc w =
     (acc @ fst (generate_loop env ms [] w), snd (generate_loop env ms [] w))"
proof (induction ms arbitrary: acc w)
  case Nil
  then show ?case by simp
next
  case (Cons m ms)
  obtain e w1 where it: "generate_email env m w = (e, w1)"
    by (cases "generate_email env m w")
  show ?case
    using Cons.IH [of "acc @ [e]" w1] Cons.IH [of "[e]" w1]
    by (simp add: it)
qed

lemma generatePersonalizedEmails_Nil [simp]: "generatePersonalizedEmails env [] w = ([], w)"
  by (simp add: generatePersonalizedEmails_def)

lemma generatePersonalizedEmails_Cons:
  "generatePersonalizedEmails env (m # ms) w =
     (fst (generate_email env m w) #
        fst (generatePersonalizedEmails env ms (snd (generate_email env m w))),
      snd (generatePersonalizedEmails env ms (snd (generate_email env m w))))"
proof -
  obtain e w1 where it: "generate_email env m w = (e, w1)"
    by (cases "generate_email env m w")
  show ?thesis
    using generate_loop_acc [of env ms "[e]" w1]
    by (simp add: generatePersonalizedEmails_def it)
qed

lemma generatePersonalizedEmails_append:
  "generatePersonalizedEmails env (xs @ ys) w =
     (fst (generatePersonalizedEmails env xs w) @
        fst (generatePersonalizedEmails env ys (snd (generatePersonalizedEmails env xs w))),
      snd (generatePersonalizedEmails env ys (snd (generatePersonalizedEmails env xs w))))"
  by (induction xs arbitrary: w) (simp_all add: generatePersonalizedEmails_Cons)

lemma generatePersonalizedEmails_customers:
  "map e_customer (fst (generatePersonalizedEmails env ms w)) = map m_customer ms"
  by (induction ms arbitrary: w) (simp_all add: generatePersonalizedEmails_Cons generate_email_customer)

lemma generatePersonalizedEmails_length:
  "length (fst (generatePersonalizedEmails env ms w)) = length ms"
  using generatePersonalizedEmails_customers [of env ms w, THEN arg_cong, of length] by simp

lemma generatePersonalizedEmails_sendable:
  "e \<in> set (fst (generatePersonalizedEmails env ms w)) \<Longrightarrow> e_success e \<Longrightarrow> sendable e"
  by (induction ms arbitrary: w)
     (auto simp: generatePersonalizedEmails_Cons generate_email_sendable)

lemma generatePersonalizedEmails_insert_failed:
  assumes "\<not> m_success m"
  shows "generatePersonalizedEmails env (xs @ m # ys) w =
     (fst (generatePersonalizedEmails env xs w) @
        failed_email (m_customer m) (m_error m) #
        fst (generatePersonalizedEmails env ys (snd (generatePersonalizedEmails env xs w))),
      snd (generatePersonalizedEmails env ys (snd (generatePersonalizedEmails env xs w))))"
  by (simp add: generatePersonalizedEmails_append generatePersonalizedEmails_Cons
                generate_email_failed_match [OF assms])

section \<open>Bulk Email Dispatcher: properties of the sending\<close>

lemma failed_result_simps [simp]:
  "r_customer (failed_result c err) = c"
  "r_success (failed_result c err) = False"
  "r_error (failed_result c err) = Some err"
  by (simp_all add: failed_result_def)

lemma process_results_acc:
  "process_results env batch rs idx results w =
     (fst (process_results env batch rs idx [] w),
      results @ fst (snd (process_results env batch rs idx [] w)),
      snd (snd (process_results env batch rs idx [] w)))"
proof (induction rs arbitrary: idx results w)
  case Nil
  then show ?case by simp
next
  case (Cons r rs)
  show ?case
  proof (cases "idx < length batch")
    case False
    then show ?thesis by simp
  next
    case inb: True
    show ?thesis
    proof (cases "has_id r")
      case False
      with inb show ?thesis
        using Cons.IH [of "Suc idx" "results @ [failed_result (e_customer (batch ! idx)) (errorMsg_of r)]" w]
              Cons.IH [of "Suc idx" "[failed_result (e_customer (batch ! idx)) (errorMsg_of r)]" w]
        by (simp add: Let_def)
    next
      case True
      obtain now w1 where rc: "read_clock env w = (now, w1)" by (cases "read_clock env w")
      show ?thesis
      proof (cases "productMatched_of (batch ! idx)")
        case (Inl e)
        with inb True rc show ?thesis by (simp add: Let_def)
      next
        case (Inr pm)
        let ?x = "\<lparr>r_customer = e_customer (batch ! idx), emailId = er_id (the r),
                    r_success = True, sentAt = Some (int now), r_subject = subject (batch ! idx),
                    productMatched = pm, r_error = None, resendResponse = None,
                    errorDetails = None\<rparr>"
        from inb True rc Inr show ?thesis
          using Cons.IH [of "Suc idx" "results @ [?x]" w1] Cons.IH [of "Suc idx" "[?x]" w1]
          by (simp add: Let_def)
      qed
    qed
  qed
qed

lemma send_batch_try_acc:
  "send_batch_try env sender batch pause results w =
     (fst (send_batch_try env sender batch pause [] w),
      results @ fst (snd (send_batch_try env sender batch pause [] w)),
      snd (snd (send_batch_try env sender batch pause [] w)))"
proof (cases "map_throw (batch_payload sender) batch")
  case (Inl e)
  then show ?thesis by (simp add: send_batch_try_def)
next
  case (Inr ps)
  show ?thesis
  proof (cases "batch_send env (length (batch_calls w)) ps")
    case (Inl e)
    with Inr show ?thesis by (simp add: send_batch_try_def Let_def)
  next
    case r: (Inr resp)
    show ?thesis
    proof (cases resp)
      case (BatchData rs)
      with Inr r show ?thesis
        using process_results_acc [of env batch rs 0 results "w\<lparr>batch_calls := batch_calls w @ [ps]\<rparr>"]
        by (simp add: send_batch_try_def Let_def split: prod.splits sum.splits)
    next
      case (BatchError m j)
      with Inr r show ?thesis by (simp add: send_batch_try_def Let_def)
    next
      case (BatchUnexpected ty)
      with Inr r show ?thesis by (simp add: send_batch_try_def Let_def)
    qed
  qed
qed

lemma send_batch_acc:
  "send_batch env sender batch pause results w =
     (results @ fst (send_batch env sender batch pause [] w),
      snd (send_batch env sender batch pause [] w))"
  using send_batch_try_acc [of env sender batch pause results w]
  by (simp add: send_batch_def split: prod.splits sum.splits)

lemma chunk_induct [consumes 1, case_names step]:
  assumes "bs \<noteq> (0::nat)" and step: "\<And>i. (i < n \<Longrightarrow> Q (i + bs)) \<Longrightarrow> Q i"
  shows "Q (i::nat)"
proof (induction "n - i" arbitrary: i rule: less_induct)
  case less
  show ?case
  proof (rule step)
    assume "i < n"
    with assms(1) have "n - (i + bs) < n - i" by arith
    then show "Q (i + bs)" by (rule less)
  qed
qed

lemma send_batches_done:
  "\<not> i < length valid \<Longrightarrow> send_batches env sender bs valid i results w = Some (results, w)"
  by (simp add: send_batches.simps [of env sender bs valid i])

lemma send_batches_step:
  "i < length valid \<Longrightarrow> bs \<noteq> 0 \<Longrightarrow>
     send_batches env sender bs valid i results w =
       send_batches env sender bs valid (i + bs)
         (fst (send_batch env sender (take bs (drop i valid)) (i + bs < length valid) results
                 (announce_batch (i div bs + 1, ceil_div (length valid) bs,
                                  length (take bs (drop i valid))) w)))
         (snd (send_batch env sender (take bs (drop i valid)) (i + bs < length valid) results
                 (announce_batch (i div bs + 1, ceil_div (length valid) bs,
                                  length (take bs (drop i valid))) w)))"
  by (simp add: send_batches.simps [of env sender bs valid i] split: prod.splits)

lemma send_batches_acc:
  assumes "bs \<noteq> 0"
  shows "send_batches env sender bs valid i results w =
     map_option (\<lambda>(rs, w'). (results @ rs, w')) (send_batches env sender bs valid i [] w)"
proof -
  have "\<forall>results w. send_batches env sender bs valid i results w =
     map_option (\<lambda>(rs, w'). (results @ rs, w')) (send_batches env sender bs valid i [] w)"
    using assms
  proof (induction i rule: chunk_induct [where n = "length valid"])
    case (step i)
    show ?case
    proof (cases "i < length valid")
      case False
      then show ?thesis by (simp add: send_batches_done)
    next
      case True
      note ih = step.IH [OF True, rule_format]
      show ?thesis
      proof (intro allI)
        fix results w
        let ?w0 = "announce_batch (i div bs + 1, ceil_div (length valid) bs, length (take bs (drop i valid))) w"
        let ?batch = "take bs (drop i valid)"
        let ?pause = "i + bs < length valid"
        obtain new w' where sb: "send_batch env sender ?batch ?pause [] ?w0 = (new, w')"
          by (cases "send_batch env sender ?batch ?pause [] ?w0")
        then have sb': "send_batch env sender ?batch ?pause results ?w0 = (results @ new, w')"
          using send_batch_acc [of env sender ?batch ?pause results ?w0] by simp
        have lhs: "send_batches env sender bs valid i results w =
                     send_batches env sender bs valid (i + bs) (results @ new) w'"
          by (simp only: send_batches_step [OF True assms] sb' fst_conv snd_conv)
        have rhs: "send_batches env sender bs valid i [] w =
                     send_batches env sender bs valid (i + bs) new w'"
          by (simp only: send_batches_step [OF True assms] sb fst_conv snd_conv)
        show "send_batches env sender bs valid i results w =
                map_option (\<lambda>(rs, w'). (results @ rs, w')) (send_batches env sender bs valid i [] w)"
          unfolding lhs rhs ih [of "results @ new" w'] ih [of new w']
          by (cases "send_batches env sender bs valid (i + bs) [] w'") auto
      qed
    qed
  qed
  then show ?thesis by blast
qed

lemma process_results_Cons_failed:
  assumes "idx < length batch" and "\<not> has_id r"
  shows "process_results env batch (r # rs) idx [] w =
     (fst (process_results env batch rs (Suc idx) [] w),
      failed_result (e_customer (batch ! idx)) (errorMsg_of r) #
        fst (snd (process_results env batch rs (Suc idx) [] w)),
      snd (snd (process_results env batch rs (Suc idx) [] w)))"
  using assms
        process_results_acc [of env batch rs "Suc idx"
          "[failed_result (e_customer (batch ! idx)) (errorMsg_of r)]" w]
  by (simp add: Let_def)

lemma process_results_Cons_sent:
  assumes "idx < length batch" and "has_id r" and "productMatched_of (batch ! idx) = Inr pm"
  shows "process_results env batch (r # rs) idx [] w =
     (fst (process_results env batch rs (Suc idx) [] (snd (read_clock env w))),
      \<lparr>r_customer = e_customer (batch ! idx), emailId = er_id (the r), r_success = True,
        sentAt = Some (int (fst (read_clock env w))), r_subject = subject (batch ! idx),
        productMatched = pm, r_error = None, resendResponse = None, errorDetails = None\<rparr> #
        fst (snd (process_results env batch rs (Suc idx) [] (snd (read_clock env w)))),
      snd (snd (process_results env batch rs (Suc idx) [] (snd (read_clock env w)))))"
  using assms
        process_results_acc [of env batch rs "Suc idx"
          "[\<lparr>r_customer = e_customer (batch ! idx), emailId = er_id (the r), r_success = True,
             sentAt = Some (int (fst (read_clock env w))), r_subject = subject (batch ! idx),
             productMatched = pm, r_error = None, resendResponse = None, errorDetails = None\<rparr>]"
          "snd (read_clock env w)"]
  by (simp add: Let_def read_clock_def)

lemma take_Suc_drop:
  "idx < length xs \<Longrightarrow> take (Suc n) (drop idx xs) = xs ! idx # take n (drop (Suc idx) xs)"
  by (simp add: Cons_nth_drop_Suc [symmetric])

lemma process_results_sendable:
  assumes "\<forall>e \<in> set batch. sendable e" and "idx + length rs \<le> length batch"
  shows "fst (process_results env batch rs idx [] w) = Inr () \<and>
         map r_customer (fst (snd (process_results env batch rs idx [] w))) =
           map e_customer (take (length rs) (drop idx batch)) \<and>
         map r_success (fst (snd (process_results env batch rs idx [] w))) = map has_id rs"
  using assms(2)
proof (induction rs arbitrary: idx w)
  case Nil
  then show ?case by simp
next
  case (Cons r rs)
  from Cons.prems have inb: "idx < length batch" and rest: "Suc idx + length rs \<le> length batch"
    by simp_all
  from inb assms(1) have "sendable (batch ! idx)" by simp
  then obtain pm where pm: "productMatched_of (batch ! idx) = Inr pm"
    by (cases "productMatched_of (batch ! idx)") (simp_all add: sendable_def)
  show ?case
  proof (cases "has_id r")
    case True
    show ?thesis
      using Cons.IH [OF rest, of "snd (read_clock env w)"]
      by (simp add: process_results_Cons_sent [OF inb True pm] take_Suc_drop [OF inb] True
               del: process_results.simps)
  next
    case False
    show ?thesis
      using Cons.IH [OF rest, of w]
      by (simp add: process_results_Cons_failed [OF inb False] take_Suc_drop [OF inb] False
               del: process_results.simps)
  qed
qed

lemma map_throw_Inr_length: "map_throw f xs = Inr ys \<Longrightarrow> length ys = length xs"
  by (induction xs arbitrary: ys) (auto split: sum.splits)

lemma map_throw_total:
  "\<forall>x \<in> set xs. \<not> isl (f x) \<Longrightarrow> \<exists>ys. map_throw f xs = Inr ys"
  by (induction xs) (auto split: sum.splits)

lemma batch_payload_sendable: "sendable e \<Longrightarrow> \<not> isl (batch_payload sender e)"
  by (auto simp: sendable_def batch_payload_def split: option.splits)

lemma send_batch_caught:
  "fst (send_batch_try env sender batch pause [] w) = Inl e \<Longrightarrow>
     fst (send_batch env sender batch pause [] w) =
       fst (snd (send_batch_try env sender batch pause [] w)) @
       map (\<lambda>email. failed_result (e_customer email) (''Batch send failed: '' @ message e)) batch"
  by (cases "send_batch_try env sender batch pause [] w") (simp add: send_batch_def)

lemma send_batch_customers:
  assumes "answers_each env" and "\<forall>e \<in> set batch. sendable e"
  shows "map r_customer (fst (send_batch env sender batch pause [] w)) = map e_customer batch"
proof -
  from map_throw_total [of batch "batch_payload sender"] assms(2)
  obtain ps where ps: "map_throw (batch_payload sender) batch = Inr ps"
    by (auto simp: batch_payload_sendable)
  have len: "length ps = length batch" by (rule map_throw_Inr_length [OF ps])
  let ?w1 = "w\<lparr>batch_calls := batch_calls w @ [ps]\<rparr>"
  show ?thesis
  proof (cases "batch_send env (length (batch_calls w)) ps")
    case (Inl e)
    with ps show ?thesis
      by (simp add: send_batch_def send_batch_try_def Let_def comp_def)
  next
    case r: (Inr resp)
    show ?thesis
    proof (cases resp)
      case (BatchData rs)
      with r assms(1) len have "length rs = length batch"
        by (auto simp: answers_each_def)
      with process_results_sendable [OF assms(2), of 0 rs env ?w1]
      have ok: "fst (process_results env batch rs 0 [] ?w1) = Inr ()"
        and cs: "map r_customer (fst (snd (process_results env batch rs 0 [] ?w1))) = map e_customer batch"
        by simp_all
      obtain a b where pr: "process_results env batch rs 0 [] ?w1 = (Inr (), a, b)"
        using ok by (cases "process_results env batch rs 0 [] ?w1") auto
      with cs have "map r_customer a = map e_customer batch" by simp
      with ps r BatchData pr show ?thesis
        by (simp add: send_batch_def send_batch_try_def Let_def)
    next
      case (BatchError m j)
      with ps r show ?thesis
        by (simp add: send_batch_def send_batch_try_def Let_def comp_def)
    next
      case (BatchUnexpected ty)
      with ps r show ?thesis
        by (simp add: send_batch_def send_batch_try_def Let_def comp_def)
    qed
  qed
qed

lemma send_batches_customers:
  assumes "bs \<noteq> 0" and "answers_each env" and "\<forall>e \<in> set valid. sendable e"
  shows "\<exists>rs w'. send_batches env sender bs valid i [] w = Some (rs, w') \<and>
                 map r_customer rs = map e_customer (drop i valid)"
proof -
  have "\<forall>w. \<exists>rs w'. send_batches env sender bs valid i [] w = Some (rs, w') \<and>
                 map r_customer rs = map e_customer (drop i valid)"
    using assms(1)
  proof (induction i rule: chunk_induct [where n = "length valid"])
    case (step i)
    show ?case
    proof (cases "i < length valid")
      case False
      then show ?thesis by (simp add: send_batches_done)
    next
      case True
      show ?thesis
      proof
        fix w
        let ?w0 = "announce_batch (i div bs + 1, ceil_div (length valid) bs, length (take bs (drop i valid))) w"
        let ?batch = "take bs (drop i valid)"
        let ?pause = "i + bs < length valid"
        obtain new w1 where sb: "send_batch env sender ?batch ?pause [] ?w0 = (new, w1)"
          by (cases "send_batch env sender ?batch ?pause [] ?w0")
        have "\<forall>e \<in> set ?batch. sendable e"
          using assms(3) by (meson in_set_dropD in_set_takeD)
        from send_batch_customers [OF assms(2) this, of sender ?pause ?w0] sb
        have new: "map r_customer new = map e_customer ?batch" by simp
        from step.IH [OF True, rule_format, of w1] obtain rs w' where
          rec: "send_batches env sender bs valid (i + bs) [] w1 = Some (rs, w')" and
          rs: "map r_customer rs = map e_customer (drop (i + bs) valid)"
          by blast
        have "send_batches env sender bs valid i [] w = send_batches env sender bs valid (i + bs) new w1"
          by (simp only: send_batches_step [OF True assms(1)] sb fst_conv snd_conv)
        also have "\<dots> = Some (new @ rs, w')"
          by (simp add: send_batches_acc [OF assms(1), of env sender valid "i + bs" new w1] rec)
        finally have eq: "send_batches env sender bs valid i [] w = Some (new @ rs, w')" .
        have "take bs (drop i valid) @ drop (i + bs) valid = drop i valid"
          by (metis append_take_drop_id drop_drop add.commute)
        then have "map e_customer ?batch @ map e_customer (drop (i + bs) valid) = map e_customer (drop i valid)"
          by (metis map_append)
        with eq new rs
        show "\<exists>rs w'. send_batches env sender bs valid i [] w = Some (rs, w') \<and>
                 map r_customer rs = map e_customer (drop i valid)"
          by simp
      qed
    qed
  qed
  then show ?thesis by blast
qed

lemma batchSize_of_nonzero: "batchSize_of opts \<noteq> 0"
  by (simp add: batchSize_of_def split: option.splits)

lemma send_batches_returns:
  assumes "bs \<noteq> 0"
  shows "\<exists>rs w'. send_batches env sender bs valid i results w = Some (rs, w')"
proof -
  have "\<forall>results w. \<exists>rs w'. send_batches env sender bs valid i results w = Some (rs, w')"
    using assms
  proof (induction i rule: chunk_induct [where n = "length valid"])
    case (step i)
    show ?case
    proof (cases "i < length valid")
      case False
      then show ?thesis by (simp add: send_batches_done)
    next
      case True
      from step.IH [OF True] show ?thesis
        by (simp only: send_batches_step [OF True assms]) blast
    qed
  qed
  then show ?thesis by blast
qed

lemma sendEmails_eq:
  "sendEmails env emails opts w =
     map_option (\<lambda>(rs, w'). (generation_failures emails @ rs, w'))
       (send_batches env (sender_of opts) (batchSize_of opts) (filter e_success emails) 0 [] w)"
proof (cases "filter e_success emails = []")
  case True
  then show ?thesis
    by (simp add: sendEmails_def Let_def generation_failures_def send_batches_done)
next
  case False
  then show ?thesis
    using send_batches_acc [OF batchSize_of_nonzero [of opts], where env = env
             and sender = "sender_of opts" and valid = "filter e_success emails" and i = 0
             and results = "generation_failures emails" and w = w]
    by (simp add: sendEmails_def Let_def generation_failures_def sender_of_def batchSize_of_def)
qed

lemma generation_failures_customers:
  "map r_customer (generation_failures emails) =
     map e_customer (filter (\<lambda>e. \<not> e_success e) emails)"
  by (simp add: generation_failures_def comp_def)

lemma sendEmails_customers:
  assumes "answers_each env" and "\<forall>e \<in> set emails. e_success e \<longrightarrow> sendable e"
  shows "\<exists>results w'. sendEmails env emails opts w = Some (results, w') \<and>
           map r_customer results =
             map e_customer (filter (\<lambda>e. \<not> e_success e) emails) @
             map e_customer (filter e_success emails)"
proof -
  from assms(2) have "\<forall>e \<in> set (filter e_success emails). sendable e" by simp
  from send_batches_customers [OF batchSize_of_nonzero [of opts] assms(1) this,
         where sender = "sender_of opts" and i = 0 and w = w]
  obtain rs w' where
    "send_batches env (sender_of opts) (batchSize_of opts) (filter e_success emails) 0 [] w = Some (rs, w')"
    and "map r_customer rs = map e_customer (filter e_success emails)"
    by auto
  then show ?thesis
    by (simp add: sendEmails_eq generation_failures_customers)
qed

lemma dispatch_eq:
  "dispatch env matches opts w =
     sendEmails env (fst (generatePersonalizedEmails env matches w)) opts
       (snd (generatePersonalizedEmails env matches w))"
  by (simp add: dispatch_def case_prod_unfold)

lemma answers_each_example: "answers_each example_env"
  by (auto simp: answers_each_def example_env_def)

text \<open>
  C2, as the code has it. For a match \<open>m\<close> whose success flag is false, the dispatch run
  over the matches with \<open>m\<close> leaves the outside world exactly as the run without \<open>m\<close> does
  (no generation call, no send call, no clock reading for \<open>m\<close>), and its results are those
  of the run without \<open>m\<close> with one failed entry for the customer of \<open>m\<close> inserted. The
  entry carries the error message of \<open>m\<close> when that message is not empty, and the text
  \<open>Email generation failed\<close> otherwise.
\<close>

theorem failed_match_passes_through:
  assumes "\<not> m_success m"
  shows "\<exists>pre post w'.
           dispatch env (xs @ ys) opts w = Some (pre @ post, w') \<and>
           dispatch env (xs @ m # ys) opts w =
             Some (pre @ failed_result (m_customer m) (js_or (m_error m) ''Email generation failed'') # post, w') \<and>
           (truthy (m_error m) \<longrightarrow> Some (js_or (m_error m) ''Email generation failed'') = m_error m)"
proof -
  let ?E1 = "fst (generatePersonalizedEmails env xs w)"
  let ?w1 = "snd (generatePersonalizedEmails env xs w)"
  let ?E2 = "fst (generatePersonalizedEmails env ys ?w1)"
  let ?w2 = "snd (generatePersonalizedEmails env ys ?w1)"
  let ?f = "failed_email (m_customer m) (m_error m)"
  let ?valid = "filter e_success (?E1 @ ?E2)"
  from send_batches_returns [OF batchSize_of_nonzero [of opts], where env = env
         and sender = "sender_of opts" and valid = ?valid and i = 0 and results = "[]" and w = ?w2]
  obtain rs w' where
    loop: "send_batches env (sender_of opts) (batchSize_of opts) ?valid 0 [] ?w2 = Some (rs, w')"
    by blast
  have without: "dispatch env (xs @ ys) opts w =
                   Some (generation_failures ?E1 @ (generation_failures ?E2 @ rs), w')"
    using loop
    by (simp add: dispatch_eq generatePersonalizedEmails_append sendEmails_eq
                  generation_failures_def)
  have "with": "dispatch env (xs @ m # ys) opts w =
                 Some (generation_failures ?E1 @
                       failed_result (m_customer m) (js_or (m_error m) ''Email generation failed'') #
                       (generation_failures ?E2 @ rs), w')"
    using loop
    by (simp add: dispatch_eq generatePersonalizedEmails_insert_failed [OF assms] sendEmails_eq
                  generation_failures_def)
  have kept: "truthy (m_error m) \<longrightarrow> Some (js_or (m_error m) ''Email generation failed'') = m_error m"
    by (auto simp: truthy_def js_or_def split: option.splits)
  from without "with" kept show ?thesis by blast
qed

theorem failed_match_passes_through_witness:
  "\<not> m_success (unmatched bob ''timeout'') \<and>
   failed_result bob ''timeout'' \<in>
     set (fst (the (dispatch example_env [matched alice, unmatched bob ''timeout'', matched carol]
                      default_options fresh_world)))"
proof -
  have h: "\<not> m_success (unmatched bob ''timeout'')" by (simp add: unmatched_def)
  have e: "m_customer (unmatched bob ''timeout'') = bob"
          "js_or (m_error (unmatched bob ''timeout'')) ''Email generation failed'' = ''timeout''"
    by (simp_all add: unmatched_def js_or_def)
  from failed_match_passes_through [OF h, of example_env "[matched alice]" "[matched carol]"
         default_options fresh_world]
  show ?thesis using h by (auto simp: e)
qed

text \<open>
  C2, as stated, fails: a failed match whose error message is the empty string comes out
  with the message \<open>Email generation failed\<close>.
\<close>

theorem failed_match_error_counterexample:
  "dispatch example_env [unmatched bob ''''] default_options fresh_world =
     Some ([failed_result bob ''Email generation failed''], fresh_world)"
  by code_simp

section \<open>Bulk Email Dispatcher: properties of the chunks\<close>

lemma process_results_frame:
  "batch_log (snd (snd (process_results env batch rs idx results w))) = batch_log w \<and>
   batch_calls (snd (snd (process_results env batch rs idx results w))) = batch_calls w"
proof (induction rs arbitrary: idx results w)
  case Nil
  then show ?case by simp
next
  case (Cons r rs)
  show ?case
  proof (cases "idx < length batch")
    case False
    then show ?thesis by simp
  next
    case inb: True
    show ?thesis
    proof (cases "has_id r")
      case False
      with inb Cons.IH show ?thesis by (simp add: Let_def)
    next
      case True
      show ?thesis
      proof (cases "productMatched_of (batch ! idx)")
        case (Inl e)
        with inb True show ?thesis by (simp add: Let_def read_clock_def)
      next
        case (Inr pm)
        with inb True Cons.IH show ?thesis by (simp add: Let_def read_clock_def)
      qed
    qed
  qed
qed

lemma map_throw_sendable:
  "\<forall>x \<in> set xs. \<not> isl (f x) \<Longrightarrow> map_throw f xs = Inr (map (\<lambda>x. projr (f x)) xs)"
  by (induction xs) (auto split: sum.splits)

lemma send_batch_try_frame:
  "batch_log (snd (snd (send_batch_try env sender batch pause results w))) = batch_log w \<and>
   (\<forall>ps. map_throw (batch_payload sender) batch = Inr ps \<longrightarrow>
      batch_calls (snd (snd (send_batch_try env sender batch pause results w))) =
        batch_calls w @ [ps])"
proof (cases "map_throw (batch_payload sender) batch")
  case (Inl e)
  then show ?thesis by (simp add: send_batch_try_def)
next
  case (Inr ps)
  let ?w1 = "w\<lparr>batch_calls := batch_calls w @ [ps]\<rparr>"
  show ?thesis
  proof (cases "batch_send env (length (batch_calls w)) ps")
    case (Inl e)
    with Inr show ?thesis by (simp add: send_batch_try_def Let_def)
  next
    case r: (Inr resp)
    show ?thesis
    proof (cases resp)
      case (BatchData rs)
      obtain r1 a b where pr: "process_results env batch rs 0 results ?w1 = (r1, a, b)"
        by (cases "process_results env batch rs 0 results ?w1")
      with process_results_frame [of env batch rs 0 results ?w1]
      have "batch_log b = batch_log w" and "batch_calls b = batch_calls w @ [ps]" by simp_all
      with Inr r BatchData pr show ?thesis
        by (cases r1) (simp_all add: send_batch_try_def Let_def delay_def)
    next
      case (BatchError m j)
      with Inr r show ?thesis by (simp add: send_batch_try_def Let_def)
    next
      case (BatchUnexpected ty)
      with Inr r show ?thesis by (simp add: send_batch_try_def Let_def)
    qed
  qed
qed

lemma send_batch_frame:
  "batch_log (snd (send_batch env sender batch pause results w)) = batch_log w \<and>
   (\<forall>ps. map_throw (batch_payload sender) batch = Inr ps \<longrightarrow>
      batch_calls (snd (send_batch env sender batch pause results w)) = batch_calls w @ [ps])"
proof -
  obtain r a b where t: "send_batch_try env sender batch pause results w = (r, a, b)"
    by (cases "send_batch_try env sender batch pause results w")
  with send_batch_try_frame [of env sender batch pause results w] show ?thesis
    by (cases r) (simp_all add: send_batch_def)
qed

lemma send_batch_api_throws:
  assumes "map_throw (batch_payload sender) batch = Inr ps"
      and "batch_send env (length (batch_calls w)) ps = Inl e"
  shows "send_batch env sender batch pause results w =
           (results @ map (\<lambda>email. failed_result (e_customer email)
                                     (''Batch send failed: '' @ message e)) batch,
            w\<lparr>batch_calls := batch_calls w @ [ps]\<rparr>)"
  using assms by (simp add: send_batch_def send_batch_try_def Let_def)

lemma send_batch_api_error:
  assumes "map_throw (batch_payload sender) batch = Inr ps"
      and "batch_send env (length (batch_calls w)) ps = Inr (BatchError m j)"
  shows "send_batch env sender batch pause results w =
           (results @ map (\<lambda>email. failed_result (e_customer email)
                                     (''Batch send failed: '' @ ''Resend API error: '' @ js_or m j)) batch,
            w\<lparr>batch_calls := batch_calls w @ [ps]\<rparr>)"
  using assms by (simp add: send_batch_def send_batch_try_def Let_def)

lemma chunk_index_less:
  assumes "0 < bs"
  shows "j * bs < n \<longleftrightarrow> j < ceil_div n bs"
proof -
  have "j < (n + bs - 1) div bs \<longleftrightarrow> Suc j \<le> (n + bs - 1) div bs" by auto
  also have "\<dots> \<longleftrightarrow> Suc j * bs \<le> n + bs - 1"
    using assms by (simp add: less_eq_div_iff_mult_less_eq)
  also have "\<dots> \<longleftrightarrow> j * bs < n"
    using assms by auto
  finally show ?thesis by (simp add: ceil_div_def)
qed

lemma send_batches_log:
  assumes "bs \<noteq> 0"
  shows "\<exists>rs w'. send_batches env sender bs valid (j * bs) results w = Some (rs, w') \<and>
           batch_log w' = batch_log w @
             map (batch_line (length valid) bs) [j..<ceil_div (length valid) bs] \<and>
           ((\<forall>e \<in> set valid. sendable e) \<longrightarrow>
              batch_calls w' = batch_calls w @
                map (\<lambda>k. map (\<lambda>e. projr (batch_payload sender e)) (take bs (drop (k * bs) valid)))
                    [j..<ceil_div (length valid) bs])"
proof -
  let ?T = "ceil_div (length valid) bs"
  let ?g = "\<lambda>k. map (\<lambda>e. projr (batch_payload sender e)) (take bs (drop (k * bs) valid))"
  have "\<forall>j results w. i = j * bs \<longrightarrow>
          (\<exists>rs w'. send_batches env sender bs valid i results w = Some (rs, w') \<and>
             batch_log w' = batch_log w @ map (batch_line (length valid) bs) [j..<?T] \<and>
             ((\<forall>e \<in> set valid. sendable e) \<longrightarrow> batch_calls w' = batch_calls w @ map ?g [j..<?T]))" for i
    using assms
  proof (induction i rule: chunk_induct [where n = "length valid"])
    case (step i)
    show ?case
    proof (intro allI impI)
      fix j results w
      assume i: "i = j * bs"
      from assms have pos: "0 < bs" by simp
      show "\<exists>rs w'. send_batches env sender bs valid i results w = Some (rs, w') \<and>
             batch_log w' = batch_log w @ map (batch_line (length valid) bs) [j..<?T] \<and>
             ((\<forall>e \<in> set valid. sendable e) \<longrightarrow> batch_calls w' = batch_calls w @ map ?g [j..<?T])"
      proof (cases "i < length valid")
        case False
        with i chunk_index_less [OF pos, of j "length valid"] have "\<not> j < ?T" by simp
        with False show ?thesis by (simp add: send_batches_done)
      next
        case True
        with i chunk_index_less [OF pos, of j "length valid"] have jT: "j < ?T" by simp
        let ?batch = "take bs (drop i valid)"
        let ?w0 = "announce_batch (i div bs + 1, ?T, length ?batch) w"
        let ?sb = "send_batch env sender ?batch (i + bs < length valid) results ?w0"
        have line: "(i div bs + 1, ?T, length ?batch) = batch_line (length valid) bs j"
          using pos i by (simp add: batch_line_def min.commute)
        have "batch_log (snd ?sb) = batch_log ?w0"
          using send_batch_frame [of env sender ?batch "i + bs < length valid" results ?w0]
          by blast
        also have "\<dots> = batch_log w @ [(i div bs + 1, ?T, length ?batch)]"
          by (simp add: announce_batch_def)
        finally have log1: "batch_log (snd ?sb) = batch_log w @ [batch_line (length valid) bs j]"
          by (simp only: line)
        have calls0: "batch_calls ?w0 = batch_calls w"
          by (simp add: announce_batch_def)
        have calls1: "batch_calls (snd ?sb) = batch_calls w @ [?g j]" if "\<forall>e \<in> set valid. sendable e"
        proof -
          from that have "\<forall>e \<in> set ?batch. \<not> isl (batch_payload sender e)"
            by (meson batch_payload_sendable in_set_dropD in_set_takeD)
          from map_throw_sendable [OF this]
          have "map_throw (batch_payload sender) ?batch = Inr (?g j)"
            by (simp add: i)
          with send_batch_frame [of env sender ?batch "i + bs < length valid" results ?w0]
          have "batch_calls (snd ?sb) = batch_calls ?w0 @ [?g j]" by blast
          then show ?thesis by (simp only: calls0)
        qed
        have next_i: "i + bs = Suc j * bs" using i by simp
        from step.IH [OF True, rule_format, OF next_i, of "fst ?sb" "snd ?sb"]
        obtain rs w' where
          rec: "send_batches env sender bs valid (i + bs) (fst ?sb) (snd ?sb) = Some (rs, w')" and
          log2: "batch_log w' = batch_log (snd ?sb) @ map (batch_line (length valid) bs) [Suc j..<?T]" and
          calls2: "(\<forall>e \<in> set valid. sendable e) \<longrightarrow>
                     batch_calls w' = batch_calls (snd ?sb) @ map ?g [Suc j..<?T]"
          by blast
        have eq: "send_batches env sender bs valid i results w = Some (rs, w')"
          using rec by (simp only: send_batches_step [OF True assms])
        have upt: "[j..<?T] = j # [Suc j..<?T]" using jT by (rule upt_conv_Cons)
        from eq log1 log2 calls1 calls2 show ?thesis
          by (simp add: upt)
      qed
    qed
  qed
  then show ?thesis by blast
qed

lemma sending_batches_append:
  "sending_batches (xs @ ys) = sending_batches xs @ sending_batches ys"
  by (simp add: sending_batches_def List.map_filter_def)

lemma sending_batches_pair:
  "sending_batches [Sending_batch k t n, Batch_complete k' a b rs] = [(k, t, n)]"
  by (simp add: sending_batches_def List.map_filter_def sending_line_def)

lemma progress_loop_done:
  "\<not> i < length valid \<Longrightarrow> progress_loop env valid i emailResults events w = (emailResults, events, w)"
  by (simp add: progress_loop.simps [of env valid i])

lemma progress_loop_step:
  "i < length valid \<Longrightarrow>
     progress_loop env valid i emailResults events w =
       progress_loop env valid (i + 3)
         (emailResults @ fst (progress_send_all env (take 3 (drop i valid)) w))
         (events @
          [Sending_batch (i div 3 + 1) (ceil_div (length valid) 3) (length (take 3 (drop i valid))),
           Batch_complete (i div 3 + 1)
             (length (filter r_success (emailResults @ fst (progress_send_all env (take 3 (drop i valid)) w))))
             (length (emailResults @ fst (progress_send_all env (take 3 (drop i valid)) w)))
             (fst (progress_send_all env (take 3 (drop i valid)) w))])
         (if i + 3 < length valid then delay (snd (progress_send_all env (take 3 (drop i valid)) w))
          else snd (progress_send_all env (take 3 (drop i valid)) w))"
  by (simp add: progress_loop.simps [of env valid i] case_prod_unfold)

lemma progress_loop_events:
  "sending_batches (fst (snd (progress_loop env valid (j * 3) emailResults events w))) =
     sending_batches events @ map (batch_line (length valid) 3) [j..<ceil_div (length valid) 3]"
proof -
  let ?T = "ceil_div (length valid) 3"
  have three: "(3::nat) \<noteq> 0" by simp
  have "\<forall>j emailResults events w. i = j * 3 \<longrightarrow>
          sending_batches (fst (snd (progress_loop env valid i emailResults events w))) =
            sending_batches events @ map (batch_line (length valid) 3) [j..<?T]" for i
    using three
  proof (induction i rule: chunk_induct [where n = "length valid"])
    case (step i)
    show ?case
    proof (intro allI impI)
      fix j emailResults events w
      assume i: "i = j * 3"
      show "sending_batches (fst (snd (progress_loop env valid i emailResults events w))) =
              sending_batches events @ map (batch_line (length valid) 3) [j..<?T]"
      proof (cases "i < length valid")
        case False
        with i chunk_index_less [of 3 j "length valid"] have "\<not> j < ?T" by simp
        with False show ?thesis by (simp add: progress_loop_done)
      next
        case True
        with i chunk_index_less [of 3 j "length valid"] have jT: "j < ?T" by simp
        have line: "(i div 3 + 1, ?T, length (take 3 (drop i valid))) = batch_line (length valid) 3 j"
          using i by (simp add: batch_line_def min.commute)
        have next_i: "i + 3 = Suc j * 3" using i by simp
        have upt: "[j..<?T] = j # [Suc j..<?T]" using jT by (rule upt_conv_Cons)
        show ?thesis
          unfolding progress_loop_step [OF True]
          using line
          by (simp add: step.IH [OF True, rule_format, OF next_i] sending_batches_append
                        sending_batches_pair upt del: upt_Suc)
      qed
    qed
  qed
  then show ?thesis by blast
qed

lemma progress_payload_sendable: "sendable e \<Longrightarrow> \<not> isl (progress_payload e)"
  by (auto simp: sendable_def progress_payload_def customerEmail_of_def split: option.splits)

lemma progress_send_customer: "r_customer (fst (progress_send env e w)) = e_customer e"
  by (simp add: progress_send_def progress_send_try_def Let_def read_clock_def
           split: sum.splits prod.splits)

lemma progress_send_sendable:
  assumes "sendable e"
  shows "r_success (fst (progress_send env e w)) =
           (\<not> isl (emails_send env (length (send_calls w)) (projr (progress_payload e))))"
    and "length (send_calls (snd (progress_send env e w))) = Suc (length (send_calls w))"
proof -
  from progress_payload_sendable [OF assms] obtain p where p: "progress_payload e = Inr p"
    by (cases "progress_payload e") simp_all
  from assms obtain pm where pm: "productMatched_of e = Inr pm"
    by (cases "productMatched_of e") (simp_all add: sendable_def)
  show "r_success (fst (progress_send env e w)) =
           (\<not> isl (emails_send env (length (send_calls w)) (projr (progress_payload e))))"
    by (simp add: progress_send_def progress_send_try_def Let_def read_clock_def p pm
             split: sum.splits)
  show "length (send_calls (snd (progress_send env e w))) = Suc (length (send_calls w))"
    by (simp add: progress_send_def progress_send_try_def Let_def read_clock_def p pm
             split: sum.splits)
qed

lemma progress_send_all_Cons:
  "progress_send_all env (e # es) w =
     (fst (progress_send env e w) # fst (progress_send_all env es (snd (progress_send env e w))),
      snd (progress_send_all env es (snd (progress_send env e w))))"
  by (simp add: case_prod_unfold)

lemma progress_send_all_customers:
  "map r_customer (fst (progress_send_all env batch w)) = map e_customer batch"
  by (induction batch arbitrary: w)
     (simp_all add: progress_send_all_Cons progress_send_customer del: progress_send_all.simps(2))

lemma progress_send_all_nth:
  assumes "\<forall>e \<in> set batch. sendable e" and "k < length batch"
  shows "r_success (fst (progress_send_all env batch w) ! k) =
           (\<not> isl (emails_send env (length (send_calls w) + k) (projr (progress_payload (batch ! k)))))"
  using assms
proof (induction batch arbitrary: w k)
  case Nil
  then show ?case by simp
next
  case (Cons e es)
  from Cons.prems(1) have e: "sendable e" and es: "\<forall>e \<in> set es. sendable e" by simp_all
  show ?case
  proof (cases k)
    case 0
    then show ?thesis
      by (simp add: progress_send_all_Cons progress_send_sendable(1) [OF e]
               del: progress_send_all.simps(2))
  next
    case (Suc k')
    with Cons.prems(2) have "k' < length es" by simp
    from Cons.IH [OF es this, of "snd (progress_send env e w)"] Suc show ?thesis
      by (simp add: progress_send_all_Cons progress_send_sendable(2) [OF e]
               del: progress_send_all.simps(2))
  qed
qed

lemma send_batch_answers:
  assumes "\<forall>e \<in> set batch. sendable e"
      and "batch_send env (length (batch_calls w))
             (map (\<lambda>e. projr (batch_payload sender e)) batch) = Inr (BatchData rs)"
      and "length rs = length batch"
  shows "map r_customer (fst (send_batch env sender batch pause [] w)) = map e_customer batch \<and>
         map r_success (fst (send_batch env sender batch pause [] w)) = map has_id rs"
proof -
  let ?ps = "map (\<lambda>e. projr (batch_payload sender e)) batch"
  let ?w1 = "w\<lparr>batch_calls := batch_calls w @ [?ps]\<rparr>"
  from assms(1) have "\<forall>e \<in> set batch. \<not> isl (batch_payload sender e)"
    by (simp add: batch_payload_sendable)
  from map_throw_sendable [OF this] have ps: "map_throw (batch_payload sender) batch = Inr ?ps" .
  from process_results_sendable [OF assms(1), of 0 rs env ?w1] assms(3)
  have ok: "fst (process_results env batch rs 0 [] ?w1) = Inr ()"
    and cs: "map r_customer (fst (snd (process_results env batch rs 0 [] ?w1))) = map e_customer batch"
    and ss: "map r_success (fst (snd (process_results env batch rs 0 [] ?w1))) = map has_id rs"
    by simp_all
  obtain a b where pr: "process_results env batch rs 0 [] ?w1 = (Inr (), a, b)"
    using ok by (cases "process_results env batch rs 0 [] ?w1") auto
  with cs ss have "map r_customer a = map e_customer batch" and "map r_success a = map has_id rs"
    by simp_all
  with ps assms(2) pr show ?thesis
    by (simp add: send_batch_def send_batch_try_def Let_def)
qed

lemma sendable_example_email:
  "first_name c \<noteq> None \<Longrightarrow> last_name c \<noteq> None \<Longrightarrow> sendable (example_email c)"
  by (simp add: sendable_def example_email_def productMatched_of_def matched_def
                example_recommendation_def)

lemma length_three: "length xs = 3 \<Longrightarrow> xs = [xs ! 0, xs ! 1, xs ! 2]"
  by (auto simp: numeral_3_eq_3 length_Suc_conv)

lemma untimed_failed_result [simp]: "untimed (failed_result c msg) = failed_result c msg"
  by (simp add: untimed_def failed_result_def)

lemma timed_failed_result [simp]: "sentAt (failed_result c msg) = None"
  by (simp add: failed_result_def)

lemma process_results_outcomes:
  assumes "\<forall>e \<in> set batch. sendable e"
  shows "map untimed (fst (snd (process_results env batch rs idx [] w))) =
           map2 entry_outcome (drop idx batch) rs \<and>
         fst (process_results env batch rs idx [] w) =
           (if length rs \<le> length batch - idx then Inr ()
            else Inl (TypeError ''Cannot read properties of undefined (reading 'customer')'')) \<and>
         map (\<lambda>r. sentAt r \<noteq> None) (fst (snd (process_results env batch rs idx [] w))) =
           map r_success (fst (snd (process_results env batch rs idx [] w)))"
proof (induction rs arbitrary: idx w)
  case Nil
  then show ?case by simp
next
  case (Cons r rs)
  show ?case
  proof (cases "idx < length batch")
    case False
    then show ?thesis by simp
  next
    case inb: True
    from inb assms have "sendable (batch ! idx)" by simp
    then obtain pm where pm: "productMatched_of (batch ! idx) = Inr pm"
      by (cases "productMatched_of (batch ! idx)") (simp_all add: sendable_def)
    have dr: "drop idx batch = batch ! idx # drop (Suc idx) batch"
      using inb by (simp add: Cons_nth_drop_Suc)
    have le: "(length (r # rs) \<le> length batch - idx) = (length rs \<le> length batch - Suc idx)"
      using inb by auto
    show ?thesis
    proof (cases "has_id r")
      case True
      show ?thesis
        unfolding process_results_Cons_sent [OF inb True pm] dr le
        using Cons.IH [of "Suc idx" "snd (read_clock env w)"]
        by (simp add: entry_outcome_def True pm untimed_def)
    next
      case False
      show ?thesis
        unfolding process_results_Cons_failed [OF inb False] dr le
        using Cons.IH [of "Suc idx" w]
        by (simp add: entry_outcome_def False)
    qed
  qed
qed

lemma send_batch_outcomes:
  assumes "\<forall>e \<in> set batch. sendable e"
  shows "map untimed (fst (send_batch env sender batch pause [] w)) =
           batch_outcomes env sender (length (batch_calls w)) batch \<and>
         map (\<lambda>r. sentAt r \<noteq> None) (fst (send_batch env sender batch pause [] w)) =
           map r_success (fst (send_batch env sender batch pause [] w))"
proof -
  let ?ps = "map (\<lambda>e. projr (batch_payload sender e)) batch"
  let ?w1 = "w\<lparr>batch_calls := batch_calls w @ [?ps]\<rparr>"
  from assms have "\<forall>e \<in> set batch. \<not> isl (batch_payload sender e)"
    by (simp add: batch_payload_sendable)
  from map_throw_sendable [OF this] have ps: "map_throw (batch_payload sender) batch = Inr ?ps" .
  show ?thesis
  proof (cases "batch_send env (length (batch_calls w)) ?ps")
    case (Inl e)
    with ps show ?thesis
      by (simp add: send_batch_def send_batch_try_def Let_def batch_outcomes_def batch_failed_def
                    comp_def)
  next
    case r: (Inr resp)
    show ?thesis
    proof (cases resp)
      case (BatchData reply)
      obtain r1 a b where pr: "process_results env batch reply 0 [] ?w1 = (r1, a, b)"
        by (cases "process_results env batch reply 0 [] ?w1")
      from process_results_outcomes [OF assms, of env reply 0 ?w1] pr
      have a: "map untimed a = map2 entry_outcome batch reply"
        and r1: "r1 = (if length reply \<le> length batch then Inr ()
                       else Inl (TypeError ''Cannot read properties of undefined (reading 'customer')''))"
        and t: "map (\<lambda>r. sentAt r \<noteq> None) a = map r_success a"
        by simp_all
      show ?thesis
      proof (cases "length reply \<le> length batch")
        case True
        with ps r BatchData pr r1 a t show ?thesis
          by (simp add: send_batch_def send_batch_try_def Let_def batch_outcomes_def)
      next
        case False
        with ps r BatchData pr r1 a t show ?thesis
          by (simp add: send_batch_def send_batch_try_def Let_def batch_outcomes_def
                        batch_failed_def comp_def)
      qed
    next
      case (BatchError m j)
      with ps r show ?thesis
        by (simp add: send_batch_def send_batch_try_def Let_def batch_outcomes_def batch_failed_def
                      comp_def)
    next
      case (BatchUnexpected ty)
      with ps r show ?thesis
        by (simp add: send_batch_def send_batch_try_def Let_def batch_outcomes_def batch_failed_def
                      comp_def)
    qed
  qed
qed

lemma send_batch_calls_sendable:
  assumes "\<forall>e \<in> set batch. sendable e"
  shows "batch_calls (snd (send_batch env sender batch pause results w)) =
           batch_calls w @ [map (\<lambda>e. projr (batch_payload sender e)) batch]"
proof -
  from assms have "\<forall>e \<in> set batch. \<not> isl (batch_payload sender e)"
    by (simp add: batch_payload_sendable)
  from map_throw_sendable [OF this] send_batch_frame [of env sender batch pause results w]
  show ?thesis by blast
qed

lemma send_batches_outcomes:
  assumes "bs \<noteq> 0" and "\<forall>e \<in> set valid. sendable e" and "length (batch_calls w) = base + j"
  shows "\<exists>rs w'. send_batches env sender bs valid (j * bs) [] w = Some (rs, w') \<and>
           map untimed rs =
             concat (map (\<lambda>k. batch_outcomes env sender (base + k) (take bs (drop (k * bs) valid)))
                         [j..<ceil_div (length valid) bs]) \<and>
           map (\<lambda>r. sentAt r \<noteq> None) rs = map r_success rs"
proof -
  let ?T = "ceil_div (length valid) bs"
  let ?g = "\<lambda>k. batch_outcomes env sender (base + k) (take bs (drop (k * bs) valid))"
  have "\<forall>j w. i = j * bs \<and> length (batch_calls w) = base + j \<longrightarrow>
          (\<exists>rs w'. send_batches env sender bs valid i [] w = Some (rs, w') \<and>
             map untimed rs = concat (map ?g [j..<?T]) \<and>
             map (\<lambda>r. sentAt r \<noteq> None) rs = map r_success rs)" for i
    using assms(1)
  proof (induction i rule: chunk_induct [where n = "length valid"])
    case (step i)
    show ?case
    proof (intro allI impI, elim conjE)
      fix j and w :: world
      assume i: "i = j * bs" and base: "length (batch_calls w) = base + j"
      from assms(1) have pos: "0 < bs" by simp
      show "\<exists>rs w'. send_batches env sender bs valid i [] w = Some (rs, w') \<and>
             map untimed rs = concat (map ?g [j..<?T]) \<and>
             map (\<lambda>r. sentAt r \<noteq> None) rs = map r_success rs"
      proof (cases "i < length valid")
        case False
        with i chunk_index_less [OF pos, of j "length valid"] have "\<not> j < ?T" by simp
        with False show ?thesis by (simp add: send_batches_done)
      next
        case True
        with i chunk_index_less [OF pos, of j "length valid"] have jT: "j < ?T" by simp
        let ?batch = "take bs (drop i valid)"
        let ?w0 = "announce_batch (i div bs + 1, ?T, length ?batch) w"
        let ?sb = "send_batch env sender ?batch (i + bs < length valid) [] ?w0"
        have sendable: "\<forall>e \<in> set ?batch. sendable e"
          using assms(2) by (meson in_set_dropD in_set_takeD)
        have calls0: "batch_calls ?w0 = batch_calls w"
          by (simp add: announce_batch_def)
        have n0: "length (batch_calls ?w0) = base + j"
          using base by (simp add: announce_batch_def)
        have gj: "?g j = batch_outcomes env sender (base + j) ?batch"
          by (simp only: i)
        from send_batch_outcomes [OF sendable, of env sender "i + bs < length valid" ?w0]
        have new: "map untimed (fst ?sb) = ?g j"
          and newt: "map (\<lambda>r. sentAt r \<noteq> None) (fst ?sb) = map r_success (fst ?sb)"
          unfolding n0 gj by blast+
        have calls1: "length (batch_calls (snd ?sb)) = base + Suc j"
          using base by (simp add: send_batch_calls_sendable [OF sendable] announce_batch_def)
        have next_i: "i + bs = Suc j * bs" using i by simp
        from step.IH [OF True, rule_format, OF conjI, OF next_i calls1]
        obtain rs w' where
          rec: "send_batches env sender bs valid (i + bs) [] (snd ?sb) = Some (rs, w')" and
          out: "map untimed rs = concat (map ?g [Suc j..<?T])" and
          outt: "map (\<lambda>r. sentAt r \<noteq> None) rs = map r_success rs"
          by blast
        have "send_batches env sender bs valid i [] w =
                send_batches env sender bs valid (i + bs) (fst ?sb) (snd ?sb)"
          by (simp only: send_batches_step [OF True assms(1)])
        also have "\<dots> = map_option (\<lambda>(rs, w'). (fst ?sb @ rs, w'))
                            (send_batches env sender bs valid (i + bs) [] (snd ?sb))"
          by (rule send_batches_acc [OF assms(1)])
        also have "\<dots> = Some (fst ?sb @ rs, w')"
          by (simp only: rec option.map prod.case)
        finally have eq: "send_batches env sender bs valid i [] w = Some (fst ?sb @ rs, w')" .
        have upt: "[j..<?T] = j # [Suc j..<?T]" using jT by (rule upt_conv_Cons)
        have m1: "map untimed (fst ?sb @ rs) = concat (map ?g [j..<?T])"
          by (simp only: upt list.map concat.simps map_append new out)
        have m2: "map (\<lambda>r. sentAt r \<noteq> None) (fst ?sb @ rs) = map r_success (fst ?sb @ rs)"
          by (simp only: map_append newt outt)
        from eq m1 m2 show ?thesis by blast
      qed
    qed
  qed
  with assms(3) show ?thesis by blast
qed

lemma sendEmails_outcomes:
  assumes "\<forall>e \<in> set emails. e_success e \<longrightarrow> sendable e"
  shows "\<exists>rs w'. sendEmails env emails opts w = Some (generation_failures emails @ rs, w') \<and>
           map untimed rs =
             concat (map (\<lambda>k. batch_outcomes env (sender_of opts) (length (batch_calls w) + k)
                                 (take (batchSize_of opts) (drop (k * batchSize_of opts) (filter e_success emails))))
                         [0..<ceil_div (length (filter e_success emails)) (batchSize_of opts)]) \<and>
           map (\<lambda>r. sentAt r \<noteq> None) rs = map r_success rs"
proof -
  from assms have s: "\<forall>e \<in> set (filter e_success emails). sendable e" by simp
  have b: "length (batch_calls w) = length (batch_calls w) + 0" by simp
  from send_batches_outcomes [OF batchSize_of_nonzero [of opts] s b, where env = env
         and sender = "sender_of opts"]
  show ?thesis
    by (auto simp: sendEmails_eq)
qed

lemma generatePersonalizedEmails_failed_match:
  "i < length ms \<Longrightarrow> \<not> m_success (ms ! i) \<Longrightarrow>
     fst (generatePersonalizedEmails env ms w) ! i =
       failed_email (m_customer (ms ! i)) (m_error (ms ! i))"
proof (induction ms arbitrary: i w)
  case Nil
  then show ?case by simp
next
  case (Cons m ms)
  show ?case
  proof (cases i)
    case 0
    with Cons.prems show ?thesis
      by (simp add: generatePersonalizedEmails_Cons generate_email_failed_match)
  next
    case (Suc k)
    with Cons.prems have "k < length ms" and "\<not> m_success (ms ! k)" by simp_all
    from Cons.IH [OF this] Suc show ?thesis
      by (simp add: generatePersonalizedEmails_Cons)
  qed
qed

lemma progress_send_outcome:
  assumes "sendable e"
  shows "untimed (fst (progress_send env e w)) = progress_outcome env (length (send_calls w)) e"
    and "(sentAt (fst (progress_send env e w)) \<noteq> None) = r_success (fst (progress_send env e w))"
    and "send_calls (snd (progress_send env e w)) = send_calls w @ [projr (progress_payload e)]"
proof -
  from progress_payload_sendable [OF assms] obtain p where p: "progress_payload e = Inr p"
    by (cases "progress_payload e") simp_all
  from assms obtain pm where pm: "productMatched_of e = Inr pm"
    by (cases "productMatched_of e") (simp_all add: sendable_def)
  show "untimed (fst (progress_send env e w)) = progress_outcome env (length (send_calls w)) e"
    by (simp add: progress_send_def progress_send_try_def Let_def read_clock_def p pm
                  untimed_def progress_outcome_def split: sum.splits)
  show "(sentAt (fst (progress_send env e w)) \<noteq> None) = r_success (fst (progress_send env e w))"
    by (simp add: progress_send_def progress_send_try_def Let_def read_clock_def p pm
             split: sum.splits)
  show "send_calls (snd (progress_send env e w)) = send_calls w @ [projr (progress_payload e)]"
    by (simp add: progress_send_def progress_send_try_def Let_def read_clock_def p pm
             split: sum.splits)
qed

lemma progress_send_all_outcomes:
  assumes "\<forall>e \<in> set batch. sendable e"
  shows "map untimed (fst (progress_send_all env batch w)) =
           progress_outcomes env (length (send_calls w)) batch \<and>
         map (\<lambda>r. sentAt r \<noteq> None) (fst (progress_send_all env batch w)) =
           map r_success (fst (progress_send_all env batch w)) \<and>
         send_calls (snd (progress_send_all env batch w)) =
           send_calls w @ map (\<lambda>e. projr (progress_payload e)) batch"
  using assms
proof (induction batch arbitrary: w)
  case Nil
  then show ?case by simp
next
  case (Cons e es)
  from Cons.prems have e: "sendable e" and es: "\<forall>e \<in> set es. sendable e" by simp_all
  have n: "length (send_calls (snd (progress_send env e w))) = Suc (length (send_calls w))"
    by (simp add: progress_send_outcome(3) [OF e])
  from Cons.IH [OF es, of "snd (progress_send env e w)"]
       progress_send_outcome(2) [OF e, of env w] show ?case
    by (simp add: progress_send_all_Cons progress_send_outcome(1,3) [OF e] n
             del: progress_send_all.simps(2))
qed

lemma progress_outcomes_length [simp]: "length (progress_outcomes env n xs) = length xs"
  by (induction xs arbitrary: n) simp_all

lemma progress_outcomes_append:
  "progress_outcomes env n (xs @ ys) =
     progress_outcomes env n xs @ progress_outcomes env (n + length xs) ys"
  by (induction xs arbitrary: n) simp_all

lemma progress_loop_outcomes:
  assumes "\<forall>e \<in> set valid. sendable e"
      and "length acc = min (j * 3) (length valid)"
      and "map untimed acc = progress_outcomes env base (take (j * 3) valid)"
      and "map (\<lambda>r. sentAt r \<noteq> None) acc = map r_success acc"
      and "length (send_calls w) = base + min (j * 3) (length valid)"
  shows "\<exists>rest evs' w'.
           progress_loop env valid (j * 3) acc evs w = (acc @ rest, evs', w') \<and>
           length (acc @ rest) = length valid \<and>
           map untimed (acc @ rest) = progress_outcomes env base valid \<and>
           map (\<lambda>r. sentAt r \<noteq> None) (acc @ rest) = map r_success (acc @ rest) \<and>
           send_calls w' = send_calls w @ map (\<lambda>e. projr (progress_payload e)) (drop (j * 3) valid) \<and>
           evs' = evs @ concat (map (progress_events (acc @ rest)) [j..<ceil_div (length valid) 3])"
proof -
  let ?N = "length valid"
  let ?T = "ceil_div ?N 3"
  let ?pp = "\<lambda>e. projr (progress_payload e)"
  have three: "(3::nat) \<noteq> 0" by simp
  have "\<forall>j acc evs w.
          i = j * 3 \<and> length acc = min i ?N \<and>
          map untimed acc = progress_outcomes env base (take i valid) \<and>
          map (\<lambda>r. sentAt r \<noteq> None) acc = map r_success acc \<and>
          length (send_calls w) = base + min i ?N \<longrightarrow>
          (\<exists>rest evs' w'.
             progress_loop env valid i acc evs w = (acc @ rest, evs', w') \<and>
             length (acc @ rest) = ?N \<and>
             map untimed (acc @ rest) = progress_outcomes env base valid \<and>
             map (\<lambda>r. sentAt r \<noteq> None) (acc @ rest) = map r_success (acc @ rest) \<and>
             send_calls w' = send_calls w @ map ?pp (drop i valid) \<and>
             evs' = evs @ concat (map (progress_events (acc @ rest)) [j..<?T]))" for i
    using three
  proof (induction i rule: chunk_induct [where n = "length valid"])
    case (step i)
    show ?case
    proof (intro allI impI, elim conjE)
      fix j :: nat and acc :: "send_result list" and evs :: "event list" and w :: world
      assume i: "i = j * 3"
        and lacc: "length acc = min i ?N"
        and uacc: "map untimed acc = progress_outcomes env base (take i valid)"
        and tacc: "map (\<lambda>r. sentAt r \<noteq> None) acc = map r_success acc"
        and calls: "length (send_calls w) = base + min i ?N"
      show "\<exists>rest evs' w'.
             progress_loop env valid i acc evs w = (acc @ rest, evs', w') \<and>
             length (acc @ rest) = ?N \<and>
             map untimed (acc @ rest) = progress_outcomes env base valid \<and>
             map (\<lambda>r. sentAt r \<noteq> None) (acc @ rest) = map r_success (acc @ rest) \<and>
             send_calls w' = send_calls w @ map ?pp (drop i valid) \<and>
             evs' = evs @ concat (map (progress_events (acc @ rest)) [j..<?T])"
      proof (cases "i < ?N")
        case False
        with i chunk_index_less [of 3 j ?N] have "\<not> j < ?T" by simp
        with False lacc uacc tacc show ?thesis
          by (simp add: progress_loop_done)
      next
        case True
        with i chunk_index_less [of 3 j ?N] have jT: "j < ?T" by simp
        let ?batch = "take 3 (drop i valid)"
        let ?psa = "progress_send_all env ?batch w"
        let ?new = "fst ?psa"
        let ?w1 = "if i + 3 < ?N then delay (snd ?psa) else snd ?psa"
        let ?S = "Sending_batch (i div 3 + 1) ?T (length ?batch)"
        let ?B = "Batch_complete (i div 3 + 1) (length (filter r_success (acc @ ?new)))
                    (length (acc @ ?new)) ?new"
        from True lacc have la: "length acc = i" by simp
        from True calls have ca: "length (send_calls w) = base + i" by simp
        have sendable: "\<forall>e \<in> set ?batch. sendable e"
          using assms(1) by (meson in_set_dropD in_set_takeD)
        note out = progress_send_all_outcomes [OF sendable, of env w]
        from out have newu: "map untimed ?new = progress_outcomes env (base + i) ?batch"
          by (simp only: ca)
        from out have newt: "map (\<lambda>r. sentAt r \<noteq> None) ?new = map r_success ?new" by blast
        have "send_calls ?w1 = send_calls (snd ?psa)"
          by (simp add: delay_def)
        with out have calls1: "send_calls ?w1 = send_calls w @ map ?pp ?batch"
          by (simp only:)
        have lbatch: "length ?batch = min 3 (?N - i)" by (simp add: min.commute)
        from newu have lnew: "length ?new = min 3 (?N - i)"
          using lbatch by (metis length_map progress_outcomes_length)
        have lacc': "length (acc @ ?new) = min (i + 3) ?N"
          using la lnew True by simp
        have tk: "take (i + 3) valid = take i valid @ ?batch"
          by (simp add: take_add)
        have lti: "length (take i valid) = i" using True by simp
        have uacc': "map untimed (acc @ ?new) = progress_outcomes env base (take (i + 3) valid)"
          by (simp only: map_append uacc newu tk progress_outcomes_append lti)
        have tacc': "map (\<lambda>r. sentAt r \<noteq> None) (acc @ ?new) = map r_success (acc @ ?new)"
          by (simp only: map_append tacc newt)
        have calls': "length (send_calls ?w1) = base + min (i + 3) ?N"
          unfolding calls1 using ca lbatch True by simp
        have next_i: "i + 3 = Suc j * 3" using i by simp
        from step.IH [OF True, rule_format, of "Suc j" "acc @ ?new" ?w1 "evs @ [?S, ?B]"]
             next_i lacc' uacc' tacc' calls'
        obtain rest' evs' w' where
          rec: "progress_loop env valid (i + 3) (acc @ ?new) (evs @ [?S, ?B]) ?w1 =
                  ((acc @ ?new) @ rest', evs', w')" and
          len: "length ((acc @ ?new) @ rest') = ?N" and
          unt: "map untimed ((acc @ ?new) @ rest') = progress_outcomes env base valid" and
          tim: "map (\<lambda>r. sentAt r \<noteq> None) ((acc @ ?new) @ rest') = map r_success ((acc @ ?new) @ rest')" and
          cal: "send_calls w' = send_calls ?w1 @ map ?pp (drop (i + 3) valid)" and
          evs: "evs' = (evs @ [?S, ?B]) @ concat (map (progress_events ((acc @ ?new) @ rest')) [Suc j..<?T])"
          by blast
        let ?rs = "acc @ (?new @ rest')"
        have assoc: "(acc @ ?new) @ rest' = ?rs" by simp
        have eq: "progress_loop env valid i acc evs w = (?rs, evs', w')"
          using rec by (simp only: progress_loop_step [OF True] assoc)
        have dr: "?batch @ drop (i + 3) valid = drop i valid"
          by (metis add.commute append_take_drop_id drop_drop)
        have cal': "send_calls w' = send_calls w @ map ?pp (drop i valid)"
          unfolding cal calls1 by (simp only: append_assoc map_append [symmetric] dr)
        have lrest: "length rest' = ?N - min (i + 3) ?N"
          using len lacc' by simp
        have rest_nil: "rest' = []" if "\<not> i + 3 \<le> ?N"
          using lrest that by simp
        have tk_rs: "take (j * 3 + 3) ?rs = acc @ ?new"
        proof (cases "i + 3 \<le> ?N")
          case True
          with lacc' have "length (acc @ ?new) = i + 3" by simp
          then show ?thesis
            unfolding assoc [symmetric] i [symmetric] by simp
        next
          case False
          from rest_nil [OF False] have "?rs = acc @ ?new" by simp
          moreover have "length (acc @ ?new) \<le> j * 3 + 3" using lacc' i by simp
          ultimately show ?thesis by (simp only: take_all)
        qed
        have la': "length acc = j * 3" using la i by simp
        have dr0: "drop (j * 3) ?rs = ?new @ rest'"
          using la' by simp
        have dr_rs: "take 3 (drop (j * 3) ?rs) = ?new"
        proof (cases "i + 3 \<le> ?N")
          case True
          with lnew have "length ?new = 3" by simp
          then show ?thesis unfolding dr0 by simp
        next
          case False
          from rest_nil [OF False] have "?new @ rest' = ?new" by simp
          moreover have "length ?new \<le> 3" using lnew by simp
          ultimately show ?thesis unfolding dr0 by (simp only: take_all)
        qed
        have lrs: "length ?rs = ?N" using len by (simp only: assoc)
        have jdiv: "i div 3 + 1 = j + 1" using i by simp
        have pe: "progress_events ?rs j = [?S, ?B]"
          unfolding progress_events_def tk_rs dr_rs lrs jdiv
          using lnew lbatch by simp
        have upt: "[j..<?T] = j # [Suc j..<?T]" using jT by (rule upt_conv_Cons)
        have evs'': "evs' = evs @ concat (map (progress_events ?rs) [j..<?T])"
          unfolding evs assoc upt by (simp only: list.map concat.simps pe append_assoc)
        from eq lrs unt tim cal' evs'' show ?thesis
          unfolding assoc by blast
      qed
    qed
  qed
  from this [rule_format, of "j * 3" j acc w evs] assms(2-5) show ?thesis by blast
qed

lemma progress_loop_sendable:
  assumes "\<forall>e \<in> set valid. sendable e"
  shows "\<exists>results w'.
           progress_loop env valid 0 [] evs w =
             (results, evs @ concat (map (progress_events results) [0..<ceil_div (length valid) 3]), w') \<and>
           length results = length valid \<and>
           map untimed results = progress_outcomes env (length (send_calls w)) valid \<and>
           map (\<lambda>r. sentAt r \<noteq> None) results = map r_success results \<and>
           send_calls w' = send_calls w @ map (\<lambda>e. projr (progress_payload e)) valid"
  using progress_loop_outcomes [OF assms, of "[]" 0 env "length (send_calls w)" w evs]
  by auto

lemma send_batch_api_unexpected:
  assumes "map_throw (batch_payload sender) batch = Inr ps"
      and "batch_send env (length (batch_calls w)) ps = Inr (BatchUnexpected ty)"
  shows "send_batch env sender batch pause results w =
           (results @ map (\<lambda>email. failed_result (e_customer email)
                                     (''Batch send failed: '' @
                                      ''Invalid batch response format from Resend API. Expected {data: {data: Array}}, got: '' @ ty)) batch,
            w\<lparr>batch_calls := batch_calls w @ [ps]\<rparr>)"
  using assms by (simp add: send_batch_def send_batch_try_def Let_def)

lemma send_batch_payload_throws:
  assumes "map_throw (batch_payload sender) batch = Inl e"
  shows "send_batch env sender batch pause results w =
           (results @ map (\<lambda>email. failed_result (e_customer email)
                                     (''Batch send failed: '' @ message e)) batch, w)"
  using assms by (simp add: send_batch_def send_batch_try_def Let_def)

section \<open>Bulk Email Dispatcher: the results of a dispatch run\<close>

text \<open>
  C1, as the code has it. When the batch service answers each message, a dispatch run
  returns as many results as there are matches. The results are grouped, not in input
  order. First come the entries of the emails whose generation failed (the failed matches
  among them), in input order: each is a failure for the customer of the email, carrying
  the error of the email, or \<open>Email generation failed\<close> when it has none. Then come the
  send outcomes of the generated emails, one per email, in input order: up to their time
  stamps they are, batch by batch, the outcomes that the batch service decides by what it
  does with the batch, and a result has a time stamp exactly when it is a success. The
  generated emails themselves are in the order of the matches, and the email of a failed
  match is a failed email carrying the error of the match.
\<close>

theorem dispatch_results_grouped:
  assumes "answers_each env"
  shows "\<exists>results rs w'.
           dispatch env matches opts w = Some (results, w') \<and>
           length results = length matches \<and>
           results =
             map (\<lambda>e. failed_result (e_customer e) (js_or (e_error e) ''Email generation failed''))
                 (filter (\<lambda>e. \<not> e_success e) (fst (generatePersonalizedEmails env matches w))) @ rs \<and>
           map r_customer rs =
             map e_customer (filter e_success (fst (generatePersonalizedEmails env matches w))) \<and>
           map untimed rs =
             concat (map (\<lambda>k. batch_outcomes env (sender_of opts)
                                 (length (batch_calls (snd (generatePersonalizedEmails env matches w))) + k)
                                 (take (batchSize_of opts)
                                    (drop (k * batchSize_of opts)
                                       (filter e_success (fst (generatePersonalizedEmails env matches w))))))
                         [0..<ceil_div (length (filter e_success (fst (generatePersonalizedEmails env matches w))))
                                       (batchSize_of opts)]) \<and>
           map (\<lambda>r. sentAt r \<noteq> None) rs = map r_success rs \<and>
           map e_customer (fst (generatePersonalizedEmails env matches w)) = map m_customer matches \<and>
           (\<forall>i < length matches. \<not> m_success (matches ! i) \<longrightarrow>
              fst (generatePersonalizedEmails env matches w) ! i =
                failed_email (m_customer (matches ! i)) (m_error (matches ! i)))"
proof -
  let ?emails = "fst (generatePersonalizedEmails env matches w)"
  let ?w1 = "snd (generatePersonalizedEmails env matches w)"
  let ?valid = "filter e_success ?emails"
  let ?C = "batchSize_of opts"
  have shape: "\<forall>e \<in> set ?emails. e_success e \<longrightarrow> sendable e"
    using generatePersonalizedEmails_sendable by blast
  from sendEmails_outcomes [OF shape, of env opts ?w1] obtain rs w' where
    send: "sendEmails env ?emails opts ?w1 = Some (generation_failures ?emails @ rs, w')" and
    out: "map untimed rs =
            concat (map (\<lambda>k. batch_outcomes env (sender_of opts) (length (batch_calls ?w1) + k)
                                (take ?C (drop (k * ?C) ?valid)))
                        [0..<ceil_div (length ?valid) ?C])" and
    timed: "map (\<lambda>r. sentAt r \<noteq> None) rs = map r_success rs"
    by blast
  from sendEmails_customers [OF assms shape, of opts ?w1] send
  have "map r_customer (generation_failures ?emails @ rs) =
          map e_customer (filter (\<lambda>e. \<not> e_success e) ?emails) @ map e_customer ?valid"
    by auto
  then have cust: "map r_customer rs = map e_customer ?valid"
    by (simp add: generation_failures_customers)
  have disp: "dispatch env matches opts w =
                Some (map (\<lambda>e. failed_result (e_customer e) (js_or (e_error e) ''Email generation failed''))
                          (filter (\<lambda>e. \<not> e_success e) ?emails) @ rs, w')"
    using send by (simp add: dispatch_eq generation_failures_def)
  have "length rs = length ?valid"
    using cust map_eq_imp_length_eq by blast
  then have "length (filter (\<lambda>e. \<not> e_success e) ?emails) + length rs = length ?emails"
    using sum_length_filter_compl [of e_success ?emails] by simp
  then have len: "length (map (\<lambda>e. failed_result (e_customer e) (js_or (e_error e) ''Email generation failed''))
                               (filter (\<lambda>e. \<not> e_success e) ?emails) @ rs) = length matches"
    by (simp add: generatePersonalizedEmails_length)
  have failed: "\<forall>i < length matches. \<not> m_success (matches ! i) \<longrightarrow>
              ?emails ! i = failed_email (m_customer (matches ! i)) (m_error (matches ! i))"
    using generatePersonalizedEmails_failed_match by blast
  from disp len cust out timed generatePersonalizedEmails_customers [of env matches w] failed
  show ?thesis by blast
qed

theorem dispatch_results_grouped_witness:
  "answers_each example_env \<and>
   map r_customer (fst (the (dispatch example_env [matched alice, unmatched bob ''timeout'', matched carol]
                       default_options fresh_world))) = [bob, alice, carol] \<and>
   take 1 (fst (the (dispatch example_env [matched alice, unmatched bob ''timeout'', matched carol]
                       default_options fresh_world))) = [failed_result bob ''timeout'']"
proof -
  let ?ms = "[matched alice, unmatched bob ''timeout'', matched carol]"
  let ?emails = "fst (generatePersonalizedEmails example_env ?ms fresh_world)"
  have h: "answers_each example_env" by (rule answers_each_example)
  have failed: "map (\<lambda>e. failed_result (e_customer e) (js_or (e_error e) ''Email generation failed''))
                    (filter (\<lambda>e. \<not> e_success e) ?emails) = [failed_result bob ''timeout'']"
    by code_simp
  have valid: "map e_customer (filter e_success ?emails) = [alice, carol]"
    by code_simp
  from dispatch_results_grouped [OF h, of ?ms default_options fresh_world]
  obtain results rs w' where
    d: "dispatch example_env ?ms default_options fresh_world = Some (results, w')" and
    r: "results =
          map (\<lambda>e. failed_result (e_customer e) (js_or (e_error e) ''Email generation failed''))
              (filter (\<lambda>e. \<not> e_success e) ?emails) @ rs" and
    c: "map r_customer rs = map e_customer (filter e_success ?emails)"
    by blast
  from h d r c show ?thesis
    by (simp add: failed valid)
qed

text \<open>
  C1, as stated, fails: with a successful match for Alice followed by a failed match for
  Bob, the first result belongs to Bob and the second to Alice; and when the batch service
  answers a batch of one message with an empty array, the run over one match returns no
  result at all.
\<close>

theorem dispatch_order_counterexample:
  "map r_customer (fst (the (dispatch example_env [matched alice, unmatched bob ''timeout'']
                                default_options fresh_world))) = [bob, alice] \<and>
   map m_customer [matched alice, unmatched bob ''timeout''] = [alice, bob] \<and>
   length (fst (the (dispatch silent_env [matched alice] default_options fresh_world))) = 0"
  by code_simp

section \<open>Bulk Email Dispatcher: the chunks of the sending phase\<close>

text \<open>
  C3. For \<open>N\<close> successfully generated emails and a chunk size \<open>C > 0\<close>, \<open>sendEmails\<close>
  returns, and on the way announces exactly \<open>ceil(N/C)\<close> batches, numbered \<open>1\<close> to
  \<open>ceil(N/C)\<close> in order, each of \<open>C\<close> emails but for a shorter last one; this holds whatever
  the batch service does, so no failure in one chunk keeps the next from being processed.
  When the emails have the shape the generation gives them, every chunk is submitted to
  the batch service, in order, whatever the earlier calls returned, and the results are,
  chunk by chunk and up to the time stamps, the outcomes that the batch service decides by
  what it does with that chunk: a chunk that fails yields one failure per recipient, and
  the chunks after it yield their own outcomes. Every failure of a chunk is caught: a batch
  call that throws, that answers with an API error or that answers in an unexpected
  format, and a payload that cannot be built. The batch then yields one failed result per
  recipient, in order, carrying the message of the error, and \<open>send_batch\<close> returns to
  the loop. The progress variant announces its \<open>ceil(N/3)\<close> batches in the same way. For
  emails of that shape it sends every email, in order, each with a call of its own whatever
  the earlier calls did, records for each email the outcome that its own call decides, a
  failure carrying the message of the error when the call throws, and writes for each batch
  its announcement and its completion with the results of the batch. Every email that the
  generation marks successful has that shape.
\<close>

theorem sendEmails_processes_every_chunk:
  assumes "\<forall>e \<in> set emails. e_success e" and "0 < C"
  shows "(\<exists>results w'.
           sendEmails env emails \<lparr>fromName = fn, batchSize = Some C\<rparr> w = Some (results, w') \<and>
           batch_log w' =
             batch_log w @ map (batch_line (length emails) C) [0..<ceil_div (length emails) C] \<and>
           length (batch_log w') = length (batch_log w) + ceil_div (length emails) C \<and>
           ((\<forall>e \<in> set emails. sendable e) \<longrightarrow>
              batch_calls w' =
                batch_calls w @
                map (\<lambda>k. map (\<lambda>e. projr (batch_payload (sender_of \<lparr>fromName = fn, batchSize = Some C\<rparr>) e))
                               (take C (drop (k * C) emails)))
                    [0..<ceil_div (length emails) C] \<and>
              map untimed results =
                concat (map (\<lambda>k. batch_outcomes env (sender_of \<lparr>fromName = fn, batchSize = Some C\<rparr>)
                                    (length (batch_calls w) + k) (take C (drop (k * C) emails)))
                            [0..<ceil_div (length emails) C]) \<and>
              map (\<lambda>r. sentAt r \<noteq> None) results = map r_success results)) \<and>
         (\<forall>batch pause rs w0 ps e.
            map_throw (batch_payload sender) batch = Inr ps \<and>
            batch_send env (length (batch_calls w0)) ps = Inl e \<longrightarrow>
              send_batch env sender batch pause rs w0 =
                (rs @ map (\<lambda>email. failed_result (e_customer email)
                                      (''Batch send failed: '' @ message e)) batch,
                 w0\<lparr>batch_calls := batch_calls w0 @ [ps]\<rparr>)) \<and>
         (\<forall>batch pause rs w0 ps m j.
            map_throw (batch_payload sender) batch = Inr ps \<and>
            batch_send env (length (batch_calls w0)) ps = Inr (BatchError m j) \<longrightarrow>
              send_batch env sender batch pause rs w0 =
                (rs @ map (\<lambda>email. failed_result (e_customer email)
                                      (''Batch send failed: '' @ ''Resend API error: '' @ js_or m j)) batch,
                 w0\<lparr>batch_calls := batch_calls w0 @ [ps]\<rparr>)) \<and>
         (\<forall>batch pause rs w0 ps ty.
            map_throw (batch_payload sender) batch = Inr ps \<and>
            batch_send env (length (batch_calls w0)) ps = Inr (BatchUnexpected ty) \<longrightarrow>
              send_batch env sender batch pause rs w0 =
                (rs @ map (\<lambda>email. failed_result (e_customer email)
                                      (''Batch send failed: '' @
                                       ''Invalid batch response format from Resend API. Expected {data: {data: Array}}, got: '' @ ty)) batch,
                 w0\<lparr>batch_calls := batch_calls w0 @ [ps]\<rparr>)) \<and>
         (\<forall>batch pause rs w0 e.
            map_throw (batch_payload sender) batch = Inl e \<longrightarrow>
              send_batch env sender batch pause rs w0 =
                (rs @ map (\<lambda>email. failed_result (e_customer email)
                                      (''Batch send failed: '' @ message e)) batch, w0)) \<and>
         sending_batches (fst (snd (progress_loop env emails 0 [] [] w))) =
           map (batch_line (length emails) 3) [0..<ceil_div (length emails) 3] \<and>
         ((\<forall>e \<in> set emails. sendable e) \<longrightarrow>
            (\<exists>results w'.
               progress_loop env emails 0 [] evs w =
                 (results,
                  evs @ concat (map (progress_events results) [0..<ceil_div (length emails) 3]), w') \<and>
               length results = length emails \<and>
               map untimed results = progress_outcomes env (length (send_calls w)) emails \<and>
               map (\<lambda>r. sentAt r \<noteq> None) results = map r_success results \<and>
               send_calls w' = send_calls w @ map (\<lambda>e. projr (progress_payload e)) emails)) \<and>
         (\<forall>genv ms w0. \<forall>e \<in> set (fst (generatePersonalizedEmails genv ms w0)). e_success e \<longrightarrow> sendable e)"
proof -
  let ?opts = "\<lparr>fromName = fn, batchSize = Some C\<rparr>"
  let ?T = "ceil_div (length emails) C"
  let ?calls = "\<lambda>w'. batch_calls w' = batch_calls w @
                map (\<lambda>k. map (\<lambda>e. projr (batch_payload (sender_of ?opts) e)) (take C (drop (k * C) emails)))
                    [0..<?T]"
  let ?outs = "\<lambda>rs. map untimed rs =
                concat (map (\<lambda>k. batch_outcomes env (sender_of ?opts)
                                    (length (batch_calls w) + k) (take C (drop (k * C) emails)))
                            [0..<?T])"
  let ?timed = "\<lambda>rs. map (\<lambda>r. sentAt r \<noteq> None) rs = map r_success rs"
  from assms(2) have bs: "batchSize_of ?opts = C" and C: "C \<noteq> 0"
    by (simp_all add: batchSize_of_def)
  from assms(1) have valid: "filter e_success emails = emails"
    and none: "generation_failures emails = []"
    by (simp_all add: generation_failures_def)
  from send_batches_log [OF C, of env "sender_of ?opts" emails 0 "[]" w]
  obtain rs w' where
    loop: "send_batches env (sender_of ?opts) C emails 0 [] w = Some (rs, w')" and
    log: "batch_log w' = batch_log w @ map (batch_line (length emails) C) [0..<?T]" and
    calls: "(\<forall>e \<in> set emails. sendable e) \<longrightarrow> ?calls w'"
    by auto
  have send: "sendEmails env emails ?opts w = Some (rs, w')"
    using loop by (simp add: sendEmails_eq bs valid none)
  have len: "length (batch_log w') = length (batch_log w) + ?T"
    by (simp add: log)
  have outs: "?outs rs \<and> ?timed rs" if s: "\<forall>e \<in> set emails. sendable e"
  proof -
    have b: "length (batch_calls w) = length (batch_calls w) + 0" by simp
    from send_batches_outcomes [OF C s b, where env = env and sender = "sender_of ?opts"] loop
    show ?thesis by simp
  qed
  have first: "\<exists>results w'.
           sendEmails env emails ?opts w = Some (results, w') \<and>
           batch_log w' = batch_log w @ map (batch_line (length emails) C) [0..<?T] \<and>
           length (batch_log w') = length (batch_log w) + ?T \<and>
           ((\<forall>e \<in> set emails. sendable e) \<longrightarrow> ?calls w' \<and> ?outs results \<and> ?timed results)"
    using send log len calls outs by blast
  have caught: "\<forall>batch pause rs w0 ps e.
            map_throw (batch_payload sender) batch = Inr ps \<and>
            batch_send env (length (batch_calls w0)) ps = Inl e \<longrightarrow>
              send_batch env sender batch pause rs w0 =
                (rs @ map (\<lambda>email. failed_result (e_customer email)
                                      (''Batch send failed: '' @ message e)) batch,
                 w0\<lparr>batch_calls := batch_calls w0 @ [ps]\<rparr>)"
    using send_batch_api_throws by blast
  have refused: "\<forall>batch pause rs w0 ps m j.
            map_throw (batch_payload sender) batch = Inr ps \<and>
            batch_send env (length (batch_calls w0)) ps = Inr (BatchError m j) \<longrightarrow>
              send_batch env sender batch pause rs w0 =
                (rs @ map (\<lambda>email. failed_result (e_customer email)
                                      (''Batch send failed: '' @ ''Resend API error: '' @ js_or m j)) batch,
                 w0\<lparr>batch_calls := batch_calls w0 @ [ps]\<rparr>)"
    using send_batch_api_error by blast
  have unexpected: "\<forall>batch pause rs w0 ps ty.
            map_throw (batch_payload sender) batch = Inr ps \<and>
            batch_send env (length (batch_calls w0)) ps = Inr (BatchUnexpected ty) \<longrightarrow>
              send_batch env sender batch pause rs w0 =
                (rs @ map (\<lambda>email. failed_result (e_customer email)
                                      (''Batch send failed: '' @
                                       ''Invalid batch response format from Resend API. Expected {data: {data: Array}}, got: '' @ ty)) batch,
                 w0\<lparr>batch_calls := batch_calls w0 @ [ps]\<rparr>)"
    using send_batch_api_unexpected by blast
  have payload: "\<forall>batch pause rs w0 e.
            map_throw (batch_payload sender) batch = Inl e \<longrightarrow>
              send_batch env sender batch pause rs w0 =
                (rs @ map (\<lambda>email. failed_result (e_customer email)
                                      (''Batch send failed: '' @ message e)) batch, w0)"
    using send_batch_payload_throws by blast
  have progress: "sending_batches (fst (snd (progress_loop env emails 0 [] [] w))) =
           map (batch_line (length emails) 3) [0..<ceil_div (length emails) 3]"
    using progress_loop_events [of env emails 0 "[]" "[]" w]
    by (simp add: sending_batches_def)
  have progress_results: "(\<forall>e \<in> set emails. sendable e) \<longrightarrow>
            (\<exists>results w'.
               progress_loop env emails 0 [] evs w =
                 (results,
                  evs @ concat (map (progress_events results) [0..<ceil_div (length emails) 3]), w') \<and>
               length results = length emails \<and>
               map untimed results = progress_outcomes env (length (send_calls w)) emails \<and>
               map (\<lambda>r. sentAt r \<noteq> None) results = map r_success results \<and>
               send_calls w' = send_calls w @ map (\<lambda>e. projr (progress_payload e)) emails)"
    using progress_loop_sendable [of emails env evs w] by blast
  have shape: "\<forall>genv ms w0. \<forall>e \<in> set (fst (generatePersonalizedEmails genv ms w0)). e_success e \<longrightarrow> sendable e"
    using generatePersonalizedEmails_sendable by blast
  show ?thesis
  proof (intro conjI)
    show "\<exists>results w'.
           sendEmails env emails ?opts w = Some (results, w') \<and>
           batch_log w' = batch_log w @ map (batch_line (length emails) C) [0..<?T] \<and>
           length (batch_log w') = length (batch_log w) + ?T \<and>
           ((\<forall>e \<in> set emails. sendable e) \<longrightarrow> ?calls w' \<and> ?outs results \<and> ?timed results)"
      by (rule first)
  qed (rule caught refused unexpected payload progress progress_results shape)+
qed

theorem sendEmails_processes_every_chunk_witness:
  "list_all e_success five_emails \<and> list_all sendable five_emails \<and>
   batch_log (snd (the (sendEmails flaky_env five_emails \<lparr>fromName = None, batchSize = Some 2\<rparr>
                          fresh_world))) = [(1, 3, 2), (2, 3, 2), (3, 3, 1)] \<and>
   map r_success (fst (the (sendEmails flaky_env five_emails \<lparr>fromName = None, batchSize = Some 2\<rparr>
                              fresh_world))) = [True, True, False, False, True] \<and>
   length (fst (progress_loop flaky_env five_emails 0 [] [] fresh_world)) = 5"
proof -
  have h1: "\<forall>e \<in> set five_emails. e_success e"
    by (simp add: five_emails_def example_email_def)
  have h2: "(0::nat) < 2" by simp
  have h3: "\<forall>e \<in> set five_emails. sendable e"
    by (simp add: five_emails_def sendable_example_email alice_def bob_def carol_def)
  have n: "length five_emails = 5" by (simp add: five_emails_def)
  have t: "ceil_div 5 2 = 3" by (simp add: ceil_div_def)
  have u: "[0..<3] = [0, 1, 2]" by (simp add: upt_rec)
  have flags: "map r_success (fst (the (sendEmails flaky_env five_emails
                  \<lparr>fromName = None, batchSize = Some 2\<rparr> fresh_world))) = [True, True, False, False, True]"
    by code_simp
  note inst = sendEmails_processes_every_chunk [OF h1 h2, where env = flaky_env and fn = None
                 and w = fresh_world and evs = "[]" and sender = "[]"]
  from inst [THEN conjunct1] obtain results w' where
    "sendEmails flaky_env five_emails \<lparr>fromName = None, batchSize = Some 2\<rparr> fresh_world = Some (results, w')"
    and "batch_log w' = batch_log fresh_world @ map (batch_line (length five_emails) 2) [0..<ceil_div (length five_emails) 2]"
    by blast
  then have log: "batch_log (snd (the (sendEmails flaky_env five_emails \<lparr>fromName = None, batchSize = Some 2\<rparr>
                          fresh_world))) = [(1, 3, 2), (2, 3, 2), (3, 3, 1)]"
    by (simp add: n t u batch_line_def fresh_world_def)
  from inst [THEN conjunct2, THEN conjunct2, THEN conjunct2, THEN conjunct2, THEN conjunct2,
             THEN conjunct2, THEN conjunct1, THEN mp, OF h3]
  obtain presults pw where
    "progress_loop flaky_env five_emails 0 [] [] fresh_world =
       (presults, [] @ concat (map (progress_events presults) [0..<ceil_div (length five_emails) 3]), pw)"
    and "length presults = length five_emails"
    by blast
  then have plen: "length (fst (progress_loop flaky_env five_emails 0 [] [] fresh_world)) = 5"
    by (simp add: n)
  from h1 h3 flags log plen show ?thesis by (simp add: list_all_iff)
qed

text \<open>
  C4. Within one chunk of emails of the shape the generation gives them, each recipient is
  reported, in the order of the chunk, and the success flag reported for a recipient is
  decided by the recipient's own send call alone: it is true exactly when that call does
  not reject. So for a chunk of three where only the second send rejects, the flags are
  true, false, true: two successes, one failure, all three recipients present. The same
  holds in \<open>sendEmails\<close>, where one batch call answers for all: each recipient's flag is
  decided by the recipient's own entry of the reply.
\<close>

theorem chunk_failure_isolation:
  assumes "\<forall>e \<in> set batch. sendable e"
  shows "map r_customer (fst (progress_send_all env batch w)) = map e_customer batch \<and>
         (\<forall>k < length batch.
            r_success (fst (progress_send_all env batch w) ! k) =
              (\<not> isl (emails_send env (length (send_calls w) + k)
                         (projr (progress_payload (batch ! k)))))) \<and>
         (length batch = 3 \<and>
          \<not> isl (emails_send env (length (send_calls w)) (projr (progress_payload (batch ! 0)))) \<and>
          isl (emails_send env (length (send_calls w) + 1) (projr (progress_payload (batch ! 1)))) \<and>
          \<not> isl (emails_send env (length (send_calls w) + 2) (projr (progress_payload (batch ! 2)))) \<longrightarrow>
            map r_success (fst (progress_send_all env batch w)) = [True, False, True]) \<and>
         (\<forall>rs. length rs = length batch \<and>
               batch_send env (length (batch_calls w))
                 (map (\<lambda>e. projr (batch_payload sender e)) batch) = Inr (BatchData rs) \<longrightarrow>
                 map r_customer (fst (send_batch env sender batch pause [] w)) = map e_customer batch \<and>
                 map r_success (fst (send_batch env sender batch pause [] w)) = map has_id rs)"
proof -
  let ?rs = "fst (progress_send_all env batch w)"
  have cust: "map r_customer ?rs = map e_customer batch"
    by (rule progress_send_all_customers)
  then have len: "length ?rs = length batch"
    using map_eq_imp_length_eq by blast
  have own: "\<forall>k < length batch.
            r_success (?rs ! k) =
              (\<not> isl (emails_send env (length (send_calls w) + k)
                         (projr (progress_payload (batch ! k)))))"
    using progress_send_all_nth [OF assms] by blast
  have three: "map r_success ?rs = [True, False, True]"
    if "length batch = 3"
      and "\<not> isl (emails_send env (length (send_calls w)) (projr (progress_payload (batch ! 0))))"
      and "isl (emails_send env (length (send_calls w) + 1) (projr (progress_payload (batch ! 1))))"
      and "\<not> isl (emails_send env (length (send_calls w) + 2) (projr (progress_payload (batch ! 2))))"
  proof -
    from that(1) len have l3: "length ?rs = 3" by simp
    from that(1) have k0: "0 < length batch" and k1: "1 < length batch" and k2: "2 < length batch"
      by simp_all
    from own [rule_format, OF k0] that(2) have r0: "r_success (?rs ! 0) = True" by simp
    from own [rule_format, OF k1] that(3) have r1: "r_success (?rs ! 1) = False" by simp
    from own [rule_format, OF k2] that(4) have r2: "r_success (?rs ! 2) = True" by simp
    have "map r_success ?rs = map r_success [?rs ! 0, ?rs ! 1, ?rs ! 2]"
      by (rule arg_cong [OF length_three [OF l3]])
    also have "\<dots> = [True, False, True]"
      by (simp only: list.map r0 r1 r2)
    finally show ?thesis .
  qed
  have batch_api: "\<forall>rs. length rs = length batch \<and>
               batch_send env (length (batch_calls w))
                 (map (\<lambda>e. projr (batch_payload sender e)) batch) = Inr (BatchData rs) \<longrightarrow>
                 map r_customer (fst (send_batch env sender batch pause [] w)) = map e_customer batch \<and>
                 map r_success (fst (send_batch env sender batch pause [] w)) = map has_id rs"
    using send_batch_answers [OF assms] by blast
  show ?thesis
  proof (intro conjI)
    show "map r_customer ?rs = map e_customer batch" by (rule cust)
    show "\<forall>k < length batch.
            r_success (?rs ! k) =
              (\<not> isl (emails_send env (length (send_calls w) + k)
                         (projr (progress_payload (batch ! k)))))" by (rule own)
    show "length batch = 3 \<and>
          \<not> isl (emails_send env (length (send_calls w)) (projr (progress_payload (batch ! 0)))) \<and>
          isl (emails_send env (length (send_calls w) + 1) (projr (progress_payload (batch ! 1)))) \<and>
          \<not> isl (emails_send env (length (send_calls w) + 2) (projr (progress_payload (batch ! 2)))) \<longrightarrow>
            map r_success ?rs = [True, False, True]"
      using three by blast
    show "\<forall>rs. length rs = length batch \<and>
               batch_send env (length (batch_calls w))
                 (map (\<lambda>e. projr (batch_payload sender e)) batch) = Inr (BatchData rs) \<longrightarrow>
                 map r_customer (fst (send_batch env sender batch pause [] w)) = map e_customer batch \<and>
                 map r_success (fst (send_batch env sender batch pause [] w)) = map has_id rs"
      by (rule batch_api)
  qed
qed

theorem chunk_failure_isolation_witness:
  "list_all sendable [example_email alice, example_email bob, example_email carol] \<and>
   map r_success (fst (progress_send_all example_env
                         [example_email alice, example_email bob, example_email carol] fresh_world)) =
     [True, False, True] \<and>
   map r_customer (fst (progress_send_all example_env
                         [example_email alice, example_email bob, example_email carol] fresh_world)) =
     [alice, bob, carol]"
proof -
  let ?batch = "[example_email alice, example_email bob, example_email carol]"
  have h: "\<forall>e \<in> set ?batch. sendable e"
    by (simp add: sendable_example_email alice_def bob_def carol_def)
  have s0: "\<not> isl (emails_send example_env (length (send_calls fresh_world))
                       (projr (progress_payload (?batch ! 0))))"
    and s1: "isl (emails_send example_env (length (send_calls fresh_world) + 1)
                       (projr (progress_payload (?batch ! 1))))"
    and s2: "\<not> isl (emails_send example_env (length (send_calls fresh_world) + 2)
                       (projr (progress_payload (?batch ! 2))))"
    by (simp_all add: example_env_def fresh_world_def)
  from chunk_failure_isolation [OF h, of example_env fresh_world] s0 s1 s2
  have "map r_success (fst (progress_send_all example_env ?batch fresh_world)) = [True, False, True]"
    and "map r_customer (fst (progress_send_all example_env ?batch fresh_world)) = map e_customer ?batch"
    by simp_all
  with h show ?thesis
    by (simp add: list_all_iff example_email_def)
qed

section \<open>Preview Cache: properties\<close>

text \<open>
  C5. \<open>setCachedEmail(c, p, e)\<close> at time \<open>now\<close> followed by \<open>getCachedEmail(c, p)\<close> at time
  \<open>now'\<close> returns \<open>e\<close> when less than one hour (3600000 ms) has passed, and returns nothing
  when more than one hour has passed.
\<close>

theorem preview_cache_roundtrip:
  "(now' - now < 60 * 60 * 1000 \<longrightarrow>
      getCachedEmail now' c p (setCachedEmail now c p e cache) = Some e) \<and>
   (now' - now > 60 * 60 * 1000 \<longrightarrow>
      getCachedEmail now' c p (setCachedEmail now c p e cache) = None)"
  by (simp add: getCachedEmail_def setCachedEmail_def)

theorem preview_cache_roundtrip_witness:
  "getCachedEmail 1000 ''c1'' ''p1'' (setCachedEmail 0 ''c1'' ''p1'' ''hello'' Map.empty) = Some ''hello'' \<and>
   getCachedEmail 3600001 ''c1'' ''p1'' (setCachedEmail 0 ''c1'' ''p1'' ''hello'' Map.empty) = None"
  using preview_cache_roundtrip [of 1000 0 "''c1''" "''p1''" "''hello''" Map.empty]
        preview_cache_roundtrip [of 3600001 0 "''c1''" "''p1''" "''hello''" Map.empty]
  by simp

end
